theory Spec2Isabelle
  imports Main
begin

section \<open>JavaScript values and objects\<close>

text \<open>
  The values that flow through the market-data service: what \<^verbatim>\<open>JSON\<close> parsing and the
  database driver produce, plus \<^verbatim>\<open>undefined\<close>. Numbers carry an integer payload; no
  function below does arithmetic on them.
\<close>

datatype jsval =
    JUndefined
  | JNull
  | JBool bool
  | JNum int
  | JStr string
  | JArr "jsval list"
  | JObj "(string \<times> jsval) list"

text \<open>
  The own enumerable properties of an object, in insertion order, which is the order
  \<^verbatim>\<open>Object.keys\<close> enumerates. Where the code touches nothing else of an object
  (\<^verbatim>\<open>Object.keys\<close>, a spread or rest copy, reading a key that \<^verbatim>\<open>Object.keys\<close> gave),
  the object is passed as this list. The functions on it are the operations on own
  properties; \<open>jsobj\<close> below adds the prototype.
\<close>

type_synonym obj = "(string \<times> jsval) list"

definition obj_keys :: "obj \<Rightarrow> string list" where
  "obj_keys data = map fst data"

text \<open>The value of an own property; \<^verbatim>\<open>undefined\<close> when the object has no such own property.\<close>

definition obj_get :: "obj \<Rightarrow> string \<Rightarrow> jsval" where
  "obj_get data key = (case map_of data key of None \<Rightarrow> JUndefined | Some v \<Rightarrow> v)"

text \<open>Whether the object has the own property.\<close>

definition obj_has :: "obj \<Rightarrow> string \<Rightarrow> bool" where
  "obj_has data key = (key \<in> set (obj_keys data))"

text \<open>
  Defining an own property: an existing property keeps its place and takes the new value, a
  new property goes last. (JavaScript enumerates integer-like keys before the others; the
  list does not move them. No field name of the schema is integer-like, and nothing below
  depends on the place of another key.)
\<close>

fun obj_set :: "obj \<Rightarrow> string \<Rightarrow> jsval \<Rightarrow> obj" where
  "obj_set [] key v = [(key, v)]"
| "obj_set ((k, w) # rest) key v =
     (if k = key then (k, v) # rest else (k, w) # obj_set rest key v)"

text \<open>\<^verbatim>\<open>const { hotel_uuid, ...rest } = data\<close>: every own property but the named one.\<close>

definition obj_without :: "obj \<Rightarrow> string \<Rightarrow> obj" where
  "obj_without data key = filter (\<lambda>p. fst p \<noteq> key) data"

text \<open>\<^verbatim>\<open>v ?? null\<close>.\<close>

definition nullish_to_null :: "jsval \<Rightarrow> jsval" where
  "nullish_to_null v = (if v = JUndefined \<or> v = JNull then JNull else v)"

subsection \<open>Objects with their prototype\<close>

text \<open>
  What an object inherits from. An object literal, a spread copy and a parsed
  \<^verbatim>\<open>JSON\<close> object inherit from \<^verbatim>\<open>Object.prototype\<close>. An assignment to
  \<^verbatim>\<open>__proto__\<close> can replace the prototype by \<^verbatim>\<open>null\<close> or by the assigned value, an
  object or an array that came out of \<^verbatim>\<open>JSON\<close> parsing (and so inherits from
  \<^verbatim>\<open>Object.prototype\<close>, an array through \<^verbatim>\<open>Array.prototype\<close>).
\<close>

datatype jsproto =
    ObjectPrototype
  | NullPrototype
  | ObjectValue "(string \<times> jsval) list"
  | ArrayValue "jsval list"

record jsobj =
  own :: obj
  proto :: jsproto

text \<open>\<^verbatim>\<open>{}\<close>, \<^verbatim>\<open>{ ...data }\<close>: own properties on \<^verbatim>\<open>Object.prototype\<close>.\<close>

definition plain :: "obj \<Rightarrow> jsobj" where
  "plain ps = \<lparr>own = ps, proto = ObjectPrototype\<rparr>"

text \<open>
  What a property read gives: a value of the data, or a built-in function or object
  inherited from \<^verbatim>\<open>Object.prototype\<close> or \<^verbatim>\<open>Array.prototype\<close>. A built-in is never
  stored by the code below.
\<close>

datatype js_read = Data jsval | Builtin

text \<open>
  The data properties of \<^verbatim>\<open>Object.prototype\<close> (its accessor \<^verbatim>\<open>__proto__\<close> is treated
  apart) and of \<^verbatim>\<open>Array.prototype\<close> (ECMAScript 2023), by name.
\<close>

definition Object_prototype_names :: "string list" where
  "Object_prototype_names =
    [''constructor'', ''__defineGetter__'', ''__defineSetter__'', ''hasOwnProperty'',
     ''__lookupGetter__'', ''__lookupSetter__'', ''isPrototypeOf'', ''propertyIsEnumerable'',
     ''toString'', ''valueOf'', ''toLocaleString'']"

definition Array_prototype_names :: "string list" where
  "Array_prototype_names =
    [''length'', ''constructor'', ''at'', ''concat'', ''copyWithin'', ''fill'', ''find'',
     ''findIndex'', ''findLast'', ''findLastIndex'', ''lastIndexOf'', ''pop'', ''push'',
     ''reverse'', ''shift'', ''unshift'', ''slice'', ''sort'', ''splice'', ''includes'',
     ''indexOf'', ''join'', ''keys'', ''entries'', ''values'', ''forEach'', ''filter'',
     ''flat'', ''flatMap'', ''map'', ''every'', ''some'', ''reduce'', ''reduceRight'',
     ''toLocaleString'', ''toString'', ''toReversed'', ''toSorted'', ''toSpliced'', ''with'']"

text \<open>The property key of an array index: its decimal numeral.\<close>

fun index_key :: "nat \<Rightarrow> string" where
  "index_key n =
     (if n < 10 then [char_of (48 + n)]
      else index_key (n div 10) @ [char_of (48 + n mod 10)])"

declare index_key.simps [simp del]

text \<open>The own properties of an array: its elements by index, and \<^verbatim>\<open>length\<close>.\<close>

definition array_own :: "jsval list \<Rightarrow> string \<Rightarrow> jsval option" where
  "array_own xs key =
     (if key = ''length'' then Some (JNum (int (length xs)))
      else map_of (zip (map index_key [0..<length xs]) xs) key)"

text \<open>
  Reading a key that is not an own property, along the prototype chain. The getter of
  \<^verbatim>\<open>__proto__\<close> on \<^verbatim>\<open>Object.prototype\<close> gives the prototype of the object that is read.
\<close>

fun inherited :: "jsproto \<Rightarrow> string \<Rightarrow> js_read" where
  "inherited ObjectPrototype key =
     (if key = ''__proto__'' \<or> key \<in> set Object_prototype_names then Builtin
      else Data JUndefined)"
| "inherited NullPrototype key = Data JUndefined"
| "inherited (ObjectValue ps) key =
     (case map_of ps key of
        Some v \<Rightarrow> Data v
      | None \<Rightarrow>
          if key = ''__proto__'' then Data (JObj ps)
          else if key \<in> set Object_prototype_names then Builtin
          else Data JUndefined)"
| "inherited (ArrayValue xs) key =
     (case array_own xs key of
        Some v \<Rightarrow> Data v
      | None \<Rightarrow>
          if key = ''__proto__'' then Data (JArr xs)
          else if key \<in> set Array_prototype_names \<or> key \<in> set Object_prototype_names
          then Builtin
          else Data JUndefined)"

text \<open>\<^verbatim>\<open>data[key]\<close>.\<close>

definition js_get :: "jsobj \<Rightarrow> string \<Rightarrow> js_read" where
  "js_get data key =
     (case map_of (own data) key of
        Some v \<Rightarrow> Data v
      | None \<Rightarrow> inherited (proto data) key)"

text \<open>\<^verbatim>\<open>key in data\<close>.\<close>

fun proto_has :: "jsproto \<Rightarrow> string \<Rightarrow> bool" where
  "proto_has ObjectPrototype key = (key = ''__proto__'' \<or> key \<in> set Object_prototype_names)"
| "proto_has NullPrototype key = False"
| "proto_has (ObjectValue ps) key =
     (key \<in> set (obj_keys ps) \<or> key = ''__proto__'' \<or> key \<in> set Object_prototype_names)"
| "proto_has (ArrayValue xs) key =
     (array_own xs key \<noteq> None \<or> key \<in> set Array_prototype_names
      \<or> key = ''__proto__'' \<or> key \<in> set Object_prototype_names)"

definition js_has :: "jsobj \<Rightarrow> string \<Rightarrow> bool" where
  "js_has data key = (obj_has (own data) key \<or> proto_has (proto data) key)"

text \<open>
  \<^verbatim>\<open>data[key] = v\<close>. An own property takes the new value. Otherwise the chain is searched:
  every inherited data property is writable, so the assignment defines an own property,
  except when the search reaches the accessor \<^verbatim>\<open>__proto__\<close> of \<^verbatim>\<open>Object.prototype\<close>
  (no object before it on the chain has a property of that name). Its setter replaces the
  prototype when the value is an object, an array or \<^verbatim>\<open>null\<close> and does nothing otherwise.
\<close>

fun setter_reached :: "jsproto \<Rightarrow> bool" where
  "setter_reached ObjectPrototype = True"
| "setter_reached NullPrototype = False"
| "setter_reached (ObjectValue ps) = (''__proto__'' \<notin> set (obj_keys ps))"
| "setter_reached (ArrayValue xs) = True"

fun set_prototype :: "jsobj \<Rightarrow> jsval \<Rightarrow> jsobj" where
  "set_prototype data (JObj ps) = data\<lparr>proto := ObjectValue ps\<rparr>"
| "set_prototype data (JArr xs) = data\<lparr>proto := ArrayValue xs\<rparr>"
| "set_prototype data JNull = data\<lparr>proto := NullPrototype\<rparr>"
| "set_prototype data v = data"

definition js_set :: "jsobj \<Rightarrow> string \<Rightarrow> jsval \<Rightarrow> jsobj" where
  "js_set data key v =
     (if obj_has (own data) key then data\<lparr>own := obj_set (own data) key v\<rparr>
      else if key = ''__proto__'' \<and> setter_reached (proto data) then set_prototype data v
      else data\<lparr>own := obj_set (own data) key v\<rparr>)"

section \<open>Field definitions (middleware/constants.js)\<close>

text \<open>
  The \<^verbatim>\<open>name\<close> of every field descriptor, in the order of the source. The capture
  descriptions are prompt text and take no part in the functions below.
\<close>

definition MD_PR_FIELDS :: "string list" where
  "MD_PR_FIELDS =
    [''name'', ''city_state_country'', ''address'', ''zipcode'', ''description'',
     ''email'', ''main_phone'', ''other_phones'']"

definition MD_CAT_FIELDS :: "string list" where
  "MD_CAT_FIELDS =
    [''hotel_information'', ''accessibility'', ''amenities'', ''cleanliness_enhancements'',
     ''food_beverage'', ''guest_rooms'', ''guest_services_front_desk'',
     ''housekeeping_laundry'', ''local_area_information'', ''meeting_events'',
     ''on_property_convenience'', ''parking_transportation'', ''policies'',
     ''recreation_fitness'', ''safety_security'', ''technology_business_services'']"

definition MD_ALL_FIELDS :: "string list" where
  "MD_ALL_FIELDS = MD_PR_FIELDS @ MD_CAT_FIELDS"

definition BOOLEAN_FIELDS :: "string list" where
  "BOOLEAN_FIELDS = []"

section \<open>MarketDataService: the pure helpers\<close>

definition booleanKeysList :: "string list" where
  "booleanKeysList = BOOLEAN_FIELDS"

text \<open>\<^verbatim>\<open>value.toLowerCase().replaceAll(' ', '')\<close>, on ASCII letters.\<close>

definition toLowerCase_char :: "char \<Rightarrow> char" where
  "toLowerCase_char c =
     (let n = (of_char c :: nat) in if 65 \<le> n \<and> n \<le> 90 then char_of (n + 32) else c)"

definition flatten_string :: "string \<Rightarrow> string" where
  "flatten_string s = filter (\<lambda>c. c \<noteq> CHR '' '') (map toLowerCase_char s)"

text \<open>
  What \<^verbatim>\<open>convertBooleanValues\<close> stores for a boolean key that is present: the branches
  on \<^verbatim>\<open>typeof value\<close>, in the order of the source.
\<close>

fun convert_boolean_value :: "jsval \<Rightarrow> jsval" where
  "convert_boolean_value (JBool b) = JNum (if b then 1 else 0)"
| "convert_boolean_value (JNum n) = (if n = 0 then JNum 0 else if n = 1 then JNum 1 else JNull)"
| "convert_boolean_value (JStr s) =
     (let flatValue = flatten_string s in
      if flatValue \<in> {''true'', ''yes'', ''ok'', ''y'', ''1''} then JNum 1
      else if flatValue \<in> {''false'', ''no'', ''n'', ''0''} then JNum 0
      else JNull)"
| "convert_boolean_value v = JNull"

text \<open>An inherited built-in is a function or an object: the last branch.\<close>

fun convert_boolean_read :: "js_read \<Rightarrow> jsval" where
  "convert_boolean_read (Data v) = convert_boolean_value v"
| "convert_boolean_read Builtin = JNull"

text \<open>
  The loop body of \<^verbatim>\<open>convertBooleanValues\<close> for one key of the boolean key list, and the
  loop over a given key list. The test \<^verbatim>\<open>key in data\<close> reads the input object, the
  value is read from the copy being built. Both callers pass the object that
  \<open>filterValidFields\<close> built and read only own properties of the result.
\<close>

definition convert_boolean_key :: "jsobj \<Rightarrow> string \<Rightarrow> jsobj \<Rightarrow> jsobj" where
  "convert_boolean_key data key convertedData =
     (if \<not> js_has data key then convertedData
      else js_set convertedData key (convert_boolean_read (js_get convertedData key)))"

definition convertBooleanValuesOver :: "string list \<Rightarrow> obj \<Rightarrow> obj" where
  "convertBooleanValuesOver keys data =
     own (fold (convert_boolean_key (plain data)) keys (plain data))"

definition convertBooleanValues :: "obj \<Rightarrow> obj" where
  "convertBooleanValues data = convertBooleanValuesOver booleanKeysList data"

text \<open>
  The emptiness test that \<^verbatim>\<open>getEmptyFields\<close> and \<^verbatim>\<open>mergeDataSafely\<close> both write out
  inline: \<^verbatim>\<open>value === null || value === undefined || value === '' || value === 'N/A'\<close>.
\<close>

definition isEmpty :: "jsval \<Rightarrow> bool" where
  "isEmpty v = (v = JNull \<or> v = JUndefined \<or> v = JStr [] \<or> v = JStr ''N/A'')"

text \<open>
  \<^verbatim>\<open>getEmptyFields(existingData, allFields)\<close>. The first argument is \<open>None\<close> when it is
  \<^verbatim>\<open>null\<close> or \<^verbatim>\<open>undefined\<close> (the falsy values it can take); an object, even an empty
  one, is truthy.
\<close>

fun isEmpty_read :: "js_read \<Rightarrow> bool" where
  "isEmpty_read (Data v) = isEmpty v"
| "isEmpty_read Builtin = False"

definition getEmptyFields :: "jsobj option \<Rightarrow> string list \<Rightarrow> string list" where
  "getEmptyFields existingData allFields =
     (case existingData of
        None \<Rightarrow> allFields
      | Some d \<Rightarrow> filter (\<lambda>fieldName. isEmpty_read (js_get d fieldName)) allFields)"

text \<open>
  \<^verbatim>\<open>mergeDataSafely(existingData, newData)\<close>: \<open>merged\<close> starts as the spread copy of
  \<open>existingData\<close>, which has its own properties and not its prototype; then one step per key
  of \<open>newData\<close>, whose value is read as an own property and assigned to \<open>merged\<close>.
\<close>

definition merge_key :: "obj \<Rightarrow> string \<Rightarrow> jsobj \<Rightarrow> jsobj" where
  "merge_key newData key merged =
     (let newValue = obj_get newData key in
      if \<not> isEmpty newValue then js_set merged key newValue else merged)"

definition mergeDataSafely :: "jsobj \<Rightarrow> obj \<Rightarrow> jsobj" where
  "mergeDataSafely existingData newData =
     fold (merge_key newData) (obj_keys newData) (plain (own existingData))"

text \<open>\<^verbatim>\<open>filterValidFields(data)\<close>: one step per key of \<open>data\<close>, into an empty object.\<close>

definition validFieldNames :: "string set" where
  "validFieldNames = set MD_ALL_FIELDS"

definition filter_key :: "obj \<Rightarrow> string \<Rightarrow> obj \<Rightarrow> obj" where
  "filter_key data key filteredData =
     (if key \<in> validFieldNames \<or> key = ''hotel_uuid''
      then obj_set filteredData key (obj_get data key) else filteredData)"

definition filterValidFields :: "obj \<Rightarrow> obj" where
  "filterValidFields data = fold (filter_key data) (obj_keys data) []"

section \<open>The external collaborators\<close>

text \<open>A JavaScript \<^verbatim>\<open>Error\<close> with its message.\<close>

datatype error = Error string

text \<open>
  The four statements the service sends, by their column lists. \<open>InsertInto columns\<close> is the
  \<^verbatim>\<open>INSERT INTO t (c1, ..., cn) VALUES (?, ..., ?)\<close> of \<^verbatim>\<open>insertMarketData\<close>,
  \<open>UpdateSet columns\<close> the \<^verbatim>\<open>UPDATE t SET c1 = ?, ..., updated_at = CURRENT_TIMESTAMP WHERE id = ?\<close>
  of \<^verbatim>\<open>updateMarketData\<close>; \<open>sql_text\<close> below gives the text of each.
\<close>

datatype sql = SelectId | SelectAll | InsertInto "string list" | UpdateSet "string list"

text \<open>\<^verbatim>\<open>process.env.MARKET_DATA_TABLE || 'market_data'\<close>.\<close>

definition MARKET_DATA_TABLE :: "string option \<Rightarrow> string" where
  "MARKET_DATA_TABLE env_value =
     (case env_value of None \<Rightarrow> ''market_data''
      | Some t \<Rightarrow> if t = [] then ''market_data'' else t)"

fun join :: "string \<Rightarrow> string list \<Rightarrow> string" where
  "join sep [] = []"
| "join sep [x] = x"
| "join sep (x # y # ys) = x @ sep @ join sep (y # ys)"

definition newline :: string where
  "newline = [CHR 0x0A]"

fun sql_text :: "string \<Rightarrow> sql \<Rightarrow> string" where
  "sql_text t SelectId =
     newline @ ''      SELECT id FROM '' @ t @ '' '' @ newline @
     ''      WHERE hotel_uuid = ? AND is_deleted = 0'' @ newline @ ''    ''"
| "sql_text t SelectAll =
     newline @ ''      SELECT * FROM '' @ t @ '' '' @ newline @
     ''      WHERE hotel_uuid = ? AND is_deleted = 0'' @ newline @ ''    ''"
| "sql_text t (InsertInto columns) =
     newline @ ''      INSERT INTO '' @ t @ '' ('' @ join '', '' columns @ '')'' @ newline @
     ''      VALUES ('' @ join '', '' (map (\<lambda>c. ''?'') columns) @ '')'' @ newline @ ''    ''"
| "sql_text t (UpdateSet columns) =
     newline @ ''      UPDATE '' @ t @ '' SET '' @ join '', '' (map (\<lambda>f. f @ '' = ?'') columns) @
     '', updated_at = CURRENT_TIMESTAMP'' @ newline @
     ''      WHERE id = ?'' @ newline @ ''    ''"

text \<open>
  What the driver resolves to: the rows of a \<^verbatim>\<open>SELECT\<close>, and the header fields of an
  \<^verbatim>\<open>INSERT\<close> or \<^verbatim>\<open>UPDATE\<close>. Each caller reads the part its statement fills.
\<close>

record db_row =
  row_id :: int
  row_columns :: obj

record db_result =
  rows :: "db_row list"
  insertId :: int
  affectedRows :: int

text \<open>
  Everything the process does to the outside, in order: a query with its bound parameters,
  a request to the AI service for the listed fields of a hotel, a pause in milliseconds, and
  the FAQ request.
\<close>

datatype event =
    EvQuery sql "jsval list"
  | EvFetch string "string list"
  | EvWait nat
  | EvFaq string

text \<open>
  The storage and the AI service are not code of the service: each is an answer function,
  asked with the number of events so far, so that the same request can be answered
  differently at different times. An answer \<open>Inl e\<close> is the call throwing \<open>e\<close>.
\<close>

record world =
  db_answer :: "nat \<Rightarrow> sql \<Rightarrow> jsval list \<Rightarrow> error + db_result"
  ai_answer :: "nat \<Rightarrow> string \<Rightarrow> string list \<Rightarrow> error + obj"

text \<open>\<^verbatim>\<open>executeQuery\<close> (config/database.js): runs the statement and rethrows a failure.\<close>

definition executeQuery ::
  "world \<Rightarrow> event list \<Rightarrow> sql \<Rightarrow> jsval list \<Rightarrow> (error + db_result) \<times> event list" where
  "executeQuery w trace query params =
     (case db_answer w (length trace) query params of
        Inl e \<Rightarrow> (Inl e, trace @ [EvQuery query params])
      | Inr result \<Rightarrow> (Inr result, trace @ [EvQuery query params]))"

text \<open>
  \<^verbatim>\<open>AIService.fetchHotelData(hotelName, fieldsToFetch)\<close>: the requested descriptors are
  the schema's, filtered by the requested names; with none left it throws before any request.
  The completion request and the extraction of the \<^verbatim>\<open>JSON\<close> object are the answer
  function's.
\<close>

definition fetchHotelData ::
  "world \<Rightarrow> event list \<Rightarrow> string \<Rightarrow> string list option \<Rightarrow> (error + obj) \<times> event list" where
  "fetchHotelData w trace hotelName fieldsToFetch =
     (let fields = (case fieldsToFetch of
                      Some requested \<Rightarrow> filter (\<lambda>f. f \<in> set requested) MD_ALL_FIELDS
                    | None \<Rightarrow> MD_ALL_FIELDS)
      in if fields = [] then (Inl (Error ''No fields to fetch''), trace)
         else (ai_answer w (length trace) hotelName fields, trace @ [EvFetch hotelName fields]))"

section \<open>MarketDataService: storage\<close>

text \<open>
  \<^verbatim>\<open>getIdByUuid\<close>: the id of the first row, \<open>0\<close> when there is no row, and \<open>0\<close> as well
  in the \<^verbatim>\<open>catch\<close> branch, when the query throws.
\<close>

definition getIdByUuid :: "world \<Rightarrow> event list \<Rightarrow> string \<Rightarrow> int \<times> event list" where
  "getIdByUuid w trace hotelUuid =
     (case executeQuery w trace SelectId [JStr hotelUuid] of
        (Inr result, trace') \<Rightarrow>
          (case rows result of [] \<Rightarrow> (0, trace') | r # _ \<Rightarrow> (row_id r, trace'))
      | (Inl e, trace') \<Rightarrow> (0, trace'))"

text \<open>
  \<^verbatim>\<open>getMarketDataByUuid\<close>: the first row, \<^verbatim>\<open>undefined\<close> when there is none and
  \<^verbatim>\<open>null\<close> when the query throws; both are \<open>None\<close>.
\<close>

definition getMarketDataByUuid ::
  "world \<Rightarrow> event list \<Rightarrow> string \<Rightarrow> db_row option \<times> event list" where
  "getMarketDataByUuid w trace hotelUuid =
     (case executeQuery w trace SelectAll [JStr hotelUuid] of
        (Inr result, trace') \<Rightarrow>
          (case rows result of [] \<Rightarrow> (None, trace') | r # _ \<Rightarrow> (Some r, trace'))
      | (Inl e, trace') \<Rightarrow> (None, trace'))"

definition insertMarketData ::
  "world \<Rightarrow> event list \<Rightarrow> obj \<Rightarrow> (error + int) \<times> event list" where
  "insertMarketData w trace data =
     (let filteredData = filterValidFields data;
          fineData = convertBooleanValues filteredData;
          columns = obj_keys fineData
      in if columns = [] then (Inl (Error ''No valid fields provided for insertion''), trace)
         else
           (let vals = map (\<lambda>col. nullish_to_null (obj_get fineData col)) columns
            in case executeQuery w trace (InsertInto columns) vals of
                 (Inr result, trace') \<Rightarrow> (Inr (insertId result), trace')
               | (Inl e, trace') \<Rightarrow> (Inl e, trace')))"

definition updateMarketData ::
  "world \<Rightarrow> event list \<Rightarrow> int \<Rightarrow> obj \<Rightarrow> (error + int) \<times> event list" where
  "updateMarketData w trace row data =
     (let dataWithoutUuid = obj_without data ''hotel_uuid'';
          filteredData = filterValidFields dataWithoutUuid;
          fineData = convertBooleanValues filteredData;
          columns = obj_keys fineData
      in if columns = [] then (Inr 0, trace)
         else
           (let vals = map (\<lambda>col. nullish_to_null (obj_get fineData col)) columns @ [JNum row]
            in case executeQuery w trace (UpdateSet columns) vals of
                 (Inr result, trace') \<Rightarrow> (Inr (affectedRows result), trace')
               | (Inl e, trace') \<Rightarrow> (Inl e, trace')))"

datatype upsert_result = Updated int int | Inserted int

definition upsertMarketData ::
  "world \<Rightarrow> event list \<Rightarrow> obj \<Rightarrow> string \<Rightarrow> (error + upsert_result) \<times> event list" where
  "upsertMarketData w trace data hotelUuid =
     (case getIdByUuid w trace hotelUuid of
        (existingId, trace1) \<Rightarrow>
          if existingId > 0 then
            (case updateMarketData w trace1 existingId data of
               (Inr n, trace2) \<Rightarrow> (Inr (Updated n existingId), trace2)
             | (Inl e, trace2) \<Rightarrow> (Inl e, trace2))
          else
            (let dataWithUuid = obj_set data ''hotel_uuid'' (JStr hotelUuid)
             in case insertMarketData w trace1 dataWithUuid of
                  (Inr i, trace2) \<Rightarrow> (Inr (Inserted i), trace2)
                | (Inl e, trace2) \<Rightarrow> (Inl e, trace2)))"

section \<open>processHotelWithRetry (index.js)\<close>

record hotel =
  hotel_id :: int
  hotel_uuid :: string
  hotel_name :: string

definition allFieldNames :: "string list" where
  "allFieldNames = MD_ALL_FIELDS"

text \<open>
  The four ways out of the attempt loop: the \<^verbatim>\<open>break\<close> before the fetch (no empty field),
  the \<^verbatim>\<open>break\<close> after a merge that filled everything, the loop condition turning false
  after the last attempt, and the \<^verbatim>\<open>break\<close> in the \<^verbatim>\<open>catch\<close> branch of the last
  attempt. The specification calls the first two \<^verbatim>\<open>DONE_COMPLETE\<close>, the third
  \<^verbatim>\<open>DONE_PARTIAL\<close> and the fourth \<^verbatim>\<open>DONE_ERROR_EXHAUSTED\<close>.
\<close>

datatype loop_exit = NothingEmpty | AllFilled | AttemptsUsed | ErrorOnLastAttempt

datatype attempt_result =
    Break loop_exit jsobj "event list"
  | Next jsobj "event list"

text \<open>
  One pass through the body of the \<^verbatim>\<open>while\<close> loop; \<open>attempt\<close> is the counter after
  \<^verbatim>\<open>attempt++\<close>. A throw of the fetch leaves \<open>accumulatedData\<close> as it was.
\<close>

definition attemptOnce ::
  "world \<Rightarrow> nat \<Rightarrow> hotel \<Rightarrow> nat \<Rightarrow> jsobj \<Rightarrow> event list \<Rightarrow> attempt_result" where
  "attemptOnce w maxAttempts h attempt accumulatedData trace =
     (let emptyFields = getEmptyFields (Some accumulatedData) allFieldNames
      in if emptyFields = [] then Break NothingEmpty accumulatedData trace
         else
           (case fetchHotelData w trace (hotel_name h) (Some emptyFields) of
              (Inr newData, trace') \<Rightarrow>
                (let merged = mergeDataSafely accumulatedData newData;
                     remainingEmptyFields = getEmptyFields (Some merged) allFieldNames
                 in if remainingEmptyFields = [] then Break AllFilled merged trace'
                    else if attempt < maxAttempts \<and> remainingEmptyFields \<noteq> []
                    then Next merged (trace' @ [EvWait 5000])
                    else Next merged trace')
            | (Inl e, trace') \<Rightarrow>
                if attempt \<ge> maxAttempts then Break ErrorOnLastAttempt accumulatedData trace'
                else Next accumulatedData (trace' @ [EvWait 5000])))"

function retryLoop ::
  "world \<Rightarrow> nat \<Rightarrow> hotel \<Rightarrow> nat \<Rightarrow> jsobj \<Rightarrow> event list \<Rightarrow>
     loop_exit \<times> nat \<times> jsobj \<times> event list" where
  "retryLoop w maxAttempts h attempt accumulatedData trace =
     (if attempt < maxAttempts then
        (case attemptOnce w maxAttempts h (attempt + 1) accumulatedData trace of
           Break how acc trace' \<Rightarrow> (how, attempt + 1, acc, trace')
         | Next acc trace' \<Rightarrow> retryLoop w maxAttempts h (attempt + 1) acc trace')
      else (AttemptsUsed, attempt, accumulatedData, trace))"
  by pat_completeness auto
termination
  by (relation "measure (\<lambda>(w, maxAttempts, h, attempt, acc, trace). maxAttempts - attempt)") auto

declare retryLoop.simps [simp del]

text \<open>
  The \<^verbatim>\<open>try\<close> block after the loop: with a row found at the start, the id is looked up and
  the row updated only when the id is positive; with none, a row is inserted with the
  hotel's uuid attached. A throw of the insert or the update is rethrown. The update starts
  with a rest copy of the accumulator and the insert is given a spread copy of it: both see
  its own properties only.
\<close>

definition saveToDatabase ::
  "world \<Rightarrow> hotel \<Rightarrow> db_row option \<Rightarrow> jsobj \<Rightarrow> event list \<Rightarrow> (error + unit) \<times> event list" where
  "saveToDatabase w h existingData accumulatedData trace =
     (case existingData of
        Some r \<Rightarrow>
          (case getIdByUuid w trace (hotel_uuid h) of
             (existingId, trace1) \<Rightarrow>
               if existingId > 0 then
                 (case updateMarketData w trace1 existingId (own accumulatedData) of
                    (Inr n, trace2) \<Rightarrow> (Inr (), trace2)
                  | (Inl e, trace2) \<Rightarrow> (Inl e, trace2))
               else (Inr (), trace1))
      | None \<Rightarrow>
          (let dataWithUuid = obj_set (own accumulatedData) ''hotel_uuid'' (JStr (hotel_uuid h))
           in case insertMarketData w trace dataWithUuid of
                (Inr i, trace1) \<Rightarrow> (Inr (), trace1)
              | (Inl e, trace1) \<Rightarrow> (Inl e, trace1)))"

text \<open>
  \<^verbatim>\<open>fetchAndPrintHotelFAQ\<close>: the request is made and whatever it throws is caught.
\<close>

definition fetchAndPrintHotelFAQ :: "event list \<Rightarrow> string \<Rightarrow> event list" where
  "fetchAndPrintHotelFAQ trace hotelName = trace @ [EvFaq hotelName]"

text \<open>
  \<open>maxAttempts\<close> is \<^verbatim>\<open>Math.max(parseInt(process.env.SCRAPE_MAX_TRY || '2', 10), 1)\<close>, a
  parameter here. The result is \<open>Inl e\<close> when the function throws \<open>e\<close>.
\<close>

definition processHotelWithRetry ::
  "world \<Rightarrow> nat \<Rightarrow> hotel \<Rightarrow> event list \<Rightarrow> (error + unit) \<times> event list" where
  "processHotelWithRetry w maxAttempts h trace =
     (case getMarketDataByUuid w trace (hotel_uuid h) of
        (existingData, trace0) \<Rightarrow>
          (case retryLoop w maxAttempts h 0 (plain []) trace0 of
             (how, attempt, accumulatedData, trace1) \<Rightarrow>
               (case saveToDatabase w h existingData accumulatedData trace1 of
                  (Inr u, trace2) \<Rightarrow> (Inr (), fetchAndPrintHotelFAQ trace2 (hotel_name h))
                | (Inl e, trace2) \<Rightarrow> (Inl e, trace2))))"

section \<open>Reading a trace\<close>

text \<open>The columns a query writes: those of an insert or an update, none for a select.\<close>

fun event_columns :: "event \<Rightarrow> string list" where
  "event_columns (EvQuery (InsertInto columns) ps) = columns"
| "event_columns (EvQuery (UpdateSet columns) ps) = columns"
| "event_columns e = []"

definition written_columns :: "event list \<Rightarrow> string set" where
  "written_columns trace = set (concat (map event_columns trace))"

definition is_fetch :: "event \<Rightarrow> bool" where
  "is_fetch e = (case e of EvFetch name fs \<Rightarrow> True | _ \<Rightarrow> False)"


fun attempt_trace :: "attempt_result \<Rightarrow> event list" where
  "attempt_trace (Break how acc trace) = trace"
| "attempt_trace (Next acc trace) = trace"

section \<open>Sample hotels and worlds\<close>

definition inn :: hotel where
  "inn = \<lparr>hotel_id = 1, hotel_uuid = ''u1'', hotel_name = ''Inn''\<rparr>"

text \<open>A stored record with every field of the schema filled.\<close>

definition filled_record :: obj where
  "filled_record = map (\<lambda>f. (f, JStr ''known'')) MD_ALL_FIELDS"

definition filled_row :: db_row where
  "filled_row = \<lparr>row_id = 7, row_columns = filled_record\<rparr>"

text \<open>
  The storage holds the filled row and every statement succeeds; the AI service answers any
  request with a name.
\<close>

definition fresh_name_world :: world where
  "fresh_name_world =
     \<lparr>db_answer = (\<lambda>n q ps. Inr \<lparr>rows = [filled_row], insertId = 0, affectedRows = 1\<rparr>),
      ai_answer = (\<lambda>n name fs. Inr [(''name'', JStr ''Inn (fresh)'')])\<rparr>"

text \<open>
  The storage holds no row; the first request to the AI service (the second event) is
  answered with a name and an \<^verbatim>\<open>"N/A"\<close> email, every later one throws.
\<close>

definition flaky_world :: world where
  "flaky_world =
     \<lparr>db_answer = (\<lambda>n q ps. Inr \<lparr>rows = [], insertId = 42, affectedRows = 1\<rparr>),
      ai_answer = (\<lambda>n name fs.
        if n = 1 then Inr [(''name'', JStr ''Inn''), (''email'', JStr ''N/A'')]
        else Inl (Error ''timeout''))\<rparr>"

text \<open>
  As \<open>fresh_name_world\<close>, but the row that the first select finds has no column filled.
\<close>

definition bare_row :: db_row where
  "bare_row = \<lparr>row_id = 7, row_columns = []\<rparr>"

definition bare_row_world :: world where
  "bare_row_world =
     \<lparr>db_answer = (\<lambda>n q ps.
        if q = SelectAll then Inr \<lparr>rows = [bare_row], insertId = 0, affectedRows = 1\<rparr>
        else db_answer fresh_name_world n q ps),
      ai_answer = ai_answer fresh_name_world\<rparr>"

text \<open>The row is found by the first select; every other statement throws.\<close>

definition lookup_fails_world :: world where
  "lookup_fails_world =
     \<lparr>db_answer = (\<lambda>n q ps.
        if q = SelectAll then Inr \<lparr>rows = [filled_row], insertId = 0, affectedRows = 0\<rparr>
        else Inl (Error ''ECONNRESET'')),
      ai_answer = (\<lambda>n name fs. Inr [(''name'', JStr ''Inn'')])\<rparr>"
section \<open>Objects\<close>

lemma map_of_obj_set: "map_of (obj_set data key v) = (map_of data)(key \<mapsto> v)"
  by (induction data key v rule: obj_set.induct) (auto simp: fun_eq_iff)

lemma obj_keys_obj_set: "set (obj_keys (obj_set data key v)) = insert key (set (obj_keys data))"
  by (induction data key v rule: obj_set.induct) (auto simp: obj_keys_def)

lemma obj_has_iff: "obj_has data key \<longleftrightarrow> map_of data key \<noteq> None"
  by (simp add: obj_has_def obj_keys_def map_of_eq_None_iff)

lemma in_keys_iff: "key \<in> set (obj_keys data) \<longleftrightarrow> map_of data key \<noteq> None"
  using obj_has_iff[of data key] by (simp add: obj_has_def)

lemma keys_eq_dom: "set (obj_keys data) = dom (map_of data)"
  by (simp add: obj_keys_def dom_map_of_conv_image_fst)

lemma keys_Nil_iff: "obj_keys data = [] \<longleftrightarrow> data = []"
  by (simp add: obj_keys_def)

lemma distinct_obj_set: "distinct (obj_keys data) \<Longrightarrow> distinct (obj_keys (obj_set data key v))"
proof (induction data key v rule: obj_set.induct)
  case (1 key v)
  then show ?case by (simp add: obj_keys_def)
next
  case (2 k w rest key v)
  have "set (map fst (obj_set rest key v)) = insert key (set (map fst rest))"
    using obj_keys_obj_set[of rest key v] by (simp add: obj_keys_def)
  with 2 show ?case by (auto simp: obj_keys_def)
qed

lemma obj_get_own_keys:
  "distinct (obj_keys data) \<Longrightarrow> map (obj_get data) (obj_keys data) = map snd data"
  by (induction data) (auto simp: obj_keys_def obj_get_def image_iff)

lemma map_of_obj_without:
  "map_of (obj_without data key) k = (if k = key then None else map_of data k)"
  by (induction data) (auto simp: obj_without_def)

lemma keys_obj_without: "set (obj_keys (obj_without data key)) = set (obj_keys data) - {key}"
  by (auto simp: keys_eq_dom map_of_obj_without split: if_splits)

subsection \<open>Assignment\<close>






lemma js_get_plain_schema_aux:
  "key \<noteq> ''__proto__'' \<Longrightarrow> key \<notin> set Object_prototype_names \<Longrightarrow>
   js_get (plain ps) key = Data (obj_get ps key)"
  by (simp add: js_get_def plain_def obj_get_def split: option.splits)

section \<open>The schema\<close>

lemma schema_names_not_builtin:
  "set MD_ALL_FIELDS \<inter> set (''__proto__'' # Object_prototype_names @ Array_prototype_names) = {}"
  by (simp add: MD_ALL_FIELDS_def MD_PR_FIELDS_def MD_CAT_FIELDS_def Object_prototype_names_def
      Array_prototype_names_def)

lemma js_get_plain_schema:
  "f \<in> set MD_ALL_FIELDS \<Longrightarrow> js_get (plain ps) f = Data (obj_get ps f)"
  using schema_names_not_builtin by (intro js_get_plain_schema_aux) auto

lemma MD_ALL_FIELDS_nonempty: "MD_ALL_FIELDS \<noteq> []"
  by (simp add: MD_ALL_FIELDS_def MD_PR_FIELDS_def)

lemma hotel_uuid_not_a_field: "''hotel_uuid'' \<notin> set MD_ALL_FIELDS"
  by (simp add: MD_ALL_FIELDS_def MD_PR_FIELDS_def MD_CAT_FIELDS_def)

section \<open>EmptinessPolicy\<close>

lemma getEmptyFields_plain_schema:
  "getEmptyFields (Some (plain ps)) MD_ALL_FIELDS
     = filter (\<lambda>f. isEmpty (obj_get ps f)) MD_ALL_FIELDS"
  by (auto simp: getEmptyFields_def js_get_plain_schema intro: filter_cong)

lemma getEmptyFields_empty_object: "getEmptyFields (Some (plain [])) MD_ALL_FIELDS = MD_ALL_FIELDS"
  by (simp add: getEmptyFields_plain_schema obj_get_def isEmpty_def)

lemma getEmptyFields_filled_record:
  "getEmptyFields (Some (plain filled_record)) allFieldNames = []"
proof -
  have "map_of filled_record f = Some (JStr ''known'')" if "f \<in> set MD_ALL_FIELDS" for f
    using that by (simp add: filled_record_def map_of_map_restrict)
  then have "\<not> isEmpty (obj_get filled_record f)" if "f \<in> set MD_ALL_FIELDS" for f
    using that by (simp add: obj_get_def isEmpty_def)
  then show ?thesis
    by (simp add: getEmptyFields_plain_schema allFieldNames_def)
qed

text \<open>
  C4. The emptiness test holds exactly for \<^verbatim>\<open>null\<close>, \<^verbatim>\<open>undefined\<close>, the empty string and
  the exact-case string \<^verbatim>\<open>"N/A"\<close>, so not for \<^verbatim>\<open>"n/a"\<close>. \<open>getEmptyFields\<close> returns the
  whole field list when there is no record, and otherwise the field names whose value in the
  record, as the property read \<^verbatim>\<open>record[name]\<close> gives it, is one of these four, in the
  order of the field list. A name the record does not have reads as \<^verbatim>\<open>undefined\<close> and is
  listed, unless the record inherits it: \<^verbatim>\<open>constructor\<close> and \<^verbatim>\<open>toString\<close> of an empty
  object read as built-in functions and are not listed.
\<close>

theorem getEmptyFields_spec:
  "(isEmpty v \<longleftrightarrow> v \<in> {JNull, JUndefined, JStr '''', JStr ''N/A''})
   \<and> \<not> isEmpty (JStr ''n/a'')
   \<and> getEmptyFields None allFields = allFields
   \<and> getEmptyFields (Some record) allFields =
       filter (\<lambda>n. js_get record n
                     \<in> {Data JNull, Data JUndefined, Data (JStr ''''), Data (JStr ''N/A'')})
         allFields
   \<and> getEmptyFields
        (Some (plain [(''name'', JStr ''Inn''), (''email'', JStr ''N/A''), (''zipcode'', JNull),
                      (''address'', JStr ''''), (''policies'', JStr ''n/a'')]))
        [''name'', ''email'', ''zipcode'', ''address'', ''policies'', ''amenities'']
       = [''email'', ''zipcode'', ''address'', ''amenities'']
   \<and> getEmptyFields (Some (plain [])) [''constructor'', ''toString'', ''name''] = [''name'']
   \<and> getEmptyFields (Some \<lparr>own = [], proto = ObjectValue [(''name'', JStr ''Inn'')]\<rparr>)
        [''name'', ''email''] = [''email'']"
proof -
  have e: "isEmpty_read r
      \<longleftrightarrow> r \<in> {Data JNull, Data JUndefined, Data (JStr ''''), Data (JStr ''N/A'')}" for r
    by (cases r) (auto simp: isEmpty_def)
  have g: "getEmptyFields (Some record) allFields =
       filter (\<lambda>n. js_get record n
                     \<in> {Data JNull, Data JUndefined, Data (JStr ''''), Data (JStr ''N/A'')})
         allFields"
    unfolding getEmptyFields_def by (simp add: e)
  have x1: "getEmptyFields
        (Some (plain [(''name'', JStr ''Inn''), (''email'', JStr ''N/A''), (''zipcode'', JNull),
                      (''address'', JStr ''''), (''policies'', JStr ''n/a'')]))
        [''name'', ''email'', ''zipcode'', ''address'', ''policies'', ''amenities'']
       = [''email'', ''zipcode'', ''address'', ''amenities'']"
    by (simp add: getEmptyFields_def js_get_def plain_def isEmpty_def Object_prototype_names_def)
  have x2: "getEmptyFields (Some (plain [])) [''constructor'', ''toString'', ''name''] = [''name'']"
    by (simp add: getEmptyFields_def js_get_def plain_def isEmpty_def Object_prototype_names_def)
  have x3: "getEmptyFields (Some \<lparr>own = [], proto = ObjectValue [(''name'', JStr ''Inn'')]\<rparr>)
        [''name'', ''email''] = [''email'']"
    by (simp add: getEmptyFields_def js_get_def isEmpty_def Object_prototype_names_def)
  show ?thesis
    using g x1 x2 x3 by (simp add: isEmpty_def getEmptyFields_def)
qed

section \<open>SafeMerge\<close>














section \<open>SchemaFilter\<close>

lemma map_of_fold_filter_key:
  "map_of (fold (filter_key data) ks filteredData) k =
     (if k \<in> set ks \<and> (k \<in> validFieldNames \<or> k = ''hotel_uuid'') then Some (obj_get data k)
      else map_of filteredData k)"
  by (induction ks arbitrary: filteredData) (auto simp: filter_key_def map_of_obj_set)

lemma map_of_filterValidFields:
  "map_of (filterValidFields data) k =
     (if k \<in> set MD_ALL_FIELDS \<or> k = ''hotel_uuid'' then map_of data k else None)"
  using in_keys_iff[of k data]
  by (cases "map_of data k")
    (simp_all add: filterValidFields_def map_of_fold_filter_key obj_get_def validFieldNames_def)

lemma keys_filterValidFields:
  "set (obj_keys (filterValidFields data)) =
     set (obj_keys data) \<inter> (set MD_ALL_FIELDS \<union> {''hotel_uuid''})"
  by (auto simp: keys_eq_dom map_of_filterValidFields split: if_splits)

lemma distinct_fold_filter_key:
  "distinct (obj_keys acc) \<Longrightarrow> distinct (obj_keys (fold (filter_key data) ks acc))"
  by (induction ks arbitrary: acc) (simp_all add: filter_key_def distinct_obj_set)

lemma distinct_filterValidFields: "distinct (obj_keys (filterValidFields data))"
  unfolding filterValidFields_def by (rule distinct_fold_filter_key) (simp add: obj_keys_def)

lemma fold_filter_key_distinct:
  "distinct (map fst ps) \<Longrightarrow> set (map fst ps) \<inter> set (map fst acc) = {} \<Longrightarrow>
   (\<And>p. p \<in> set ps \<Longrightarrow> obj_get data (fst p) = snd p) \<Longrightarrow>
   fold (filter_key data) (map fst ps) acc =
     acc @ filter (\<lambda>p. fst p \<in> validFieldNames \<or> fst p = ''hotel_uuid'') ps"
proof (induction ps arbitrary: acc)
  case Nil
  then show ?case by simp
next
  case (Cons p ps)
  have new: "fst p \<notin> set (map fst acc)" using Cons.prems(2) by auto
  have app: "obj_set acc (fst p) v = acc @ [(fst p, v)]" for v
    using new by (induction acc) auto
  show ?case
  proof (cases "fst p \<in> validFieldNames \<or> fst p = ''hotel_uuid''")
    case True
    have "fold (filter_key data) (map fst (p # ps)) acc
        = fold (filter_key data) (map fst ps) (acc @ [p])"
      using True Cons.prems(3)[of p] by (simp add: filter_key_def app)
    also have "\<dots> = (acc @ [p]) @ filter (\<lambda>p. fst p \<in> validFieldNames \<or> fst p = ''hotel_uuid'') ps"
      using Cons.prems by (intro Cons.IH) auto
    finally show ?thesis using True by simp
  next
    case False
    have "fold (filter_key data) (map fst (p # ps)) acc
        = fold (filter_key data) (map fst ps) acc"
      using False by (simp add: filter_key_def)
    also have "\<dots> = acc @ filter (\<lambda>p. fst p \<in> validFieldNames \<or> fst p = ''hotel_uuid'') ps"
      using Cons.prems by (intro Cons.IH) auto
    finally show ?thesis using False by simp
  qed
qed

lemma filterValidFields_distinct:
  assumes "distinct (obj_keys data)"
  shows "filterValidFields data =
           filter (\<lambda>p. fst p \<in> set MD_ALL_FIELDS \<or> fst p = ''hotel_uuid'') data"
proof -
  have "obj_get data (fst p) = snd p" if "p \<in> set data" for p
    using assms that by (cases p) (simp add: obj_get_def obj_keys_def)
  then show ?thesis
    using assms fold_filter_key_distinct[of data "[]" data]
    by (simp add: filterValidFields_def obj_keys_def validFieldNames_def)
qed

text \<open>
  C5. For every input object, \<open>filterValidFields\<close> keeps a key exactly when it is a field
  name of the schema or \<^verbatim>\<open>hotel_uuid\<close>, with the value the input had, and drops every
  other key; on an object (keys distinct) the result is the input's entries with such a key,
  in the input's order.
\<close>

theorem filterValidFields_spec:
  "map_of (filterValidFields data) k =
     (if k \<in> set MD_ALL_FIELDS \<or> k = ''hotel_uuid'' then map_of data k else None)
   \<and> (distinct (obj_keys data) \<longrightarrow>
        filterValidFields data =
          filter (\<lambda>p. fst p \<in> set MD_ALL_FIELDS \<or> fst p = ''hotel_uuid'') data)"
  by (simp add: map_of_filterValidFields filterValidFields_distinct)

theorem filterValidFields_spec_witness:
  "distinct (obj_keys [(''malicious_column'', JStr ''DROP TABLE''), (''name'', JStr ''Inn'')])
   \<and> filterValidFields [(''malicious_column'', JStr ''DROP TABLE''), (''name'', JStr ''Inn'')]
       = [(''name'', JStr ''Inn'')]"
  using filterValidFields_spec
    [of "[(''malicious_column'', JStr ''DROP TABLE''), (''name'', JStr ''Inn'')]" "''name''"]
  by (simp add: obj_keys_def MD_ALL_FIELDS_def MD_PR_FIELDS_def MD_CAT_FIELDS_def)

section \<open>Storage\<close>

lemma convertBooleanValues_id: "convertBooleanValues data = data"
  by (simp add: convertBooleanValues_def convertBooleanValuesOver_def booleanKeysList_def
      BOOLEAN_FIELDS_def plain_def)

text \<open>With a key in the list the conversion does change the value.\<close>

lemma convertBooleanValuesOver_example:
  "convertBooleanValuesOver [''pets_allowed'']
     [(''name'', JStr ''Inn''), (''pets_allowed'', JStr ''Yes '')]
   = [(''name'', JStr ''Inn''), (''pets_allowed'', JNum 1)]"
  by code_simp

lemma executeQuery_eq:
  "executeQuery w trace q ps = (db_answer w (length trace) q ps, trace @ [EvQuery q ps])"
  by (simp add: executeQuery_def split: sum.splits)

lemma getIdByUuid_eq:
  "getIdByUuid w trace u =
     (case db_answer w (length trace) SelectId [JStr u] of
        Inl e \<Rightarrow> 0
      | Inr result \<Rightarrow> (case rows result of [] \<Rightarrow> 0 | r # rs \<Rightarrow> row_id r),
      trace @ [EvQuery SelectId [JStr u]])"
  by (simp add: getIdByUuid_def executeQuery_eq split: sum.splits list.splits)

lemma getMarketDataByUuid_eq:
  "getMarketDataByUuid w trace u =
     (case db_answer w (length trace) SelectAll [JStr u] of
        Inl e \<Rightarrow> None
      | Inr result \<Rightarrow> (case rows result of [] \<Rightarrow> None | r # rs \<Rightarrow> Some r),
      trace @ [EvQuery SelectAll [JStr u]])"
  by (simp add: getMarketDataByUuid_def executeQuery_eq split: sum.splits list.splits)

lemma bound_values:
  "map (\<lambda>col. nullish_to_null (obj_get (filterValidFields data) col))
     (obj_keys (filterValidFields data))
   = map (nullish_to_null \<circ> snd) (filterValidFields data)"
proof -
  let ?f = "filterValidFields data"
  have "map (\<lambda>col. nullish_to_null (obj_get ?f col)) (obj_keys ?f)
        = map nullish_to_null (map (obj_get ?f) (obj_keys ?f))"
    by (simp add: comp_def)
  also have "\<dots> = map nullish_to_null (map snd ?f)"
    by (simp only: obj_get_own_keys[OF distinct_filterValidFields])
  finally show ?thesis by simp
qed

lemma insertMarketData_eq:
  "insertMarketData w trace data =
     (let f = filterValidFields data in
      if f = [] then (Inl (Error ''No valid fields provided for insertion''), trace)
      else (map_sum id insertId
              (db_answer w (length trace) (InsertInto (obj_keys f)) (map (nullish_to_null \<circ> snd) f)),
            trace @ [EvQuery (InsertInto (obj_keys f)) (map (nullish_to_null \<circ> snd) f)]))"
  unfolding insertMarketData_def convertBooleanValues_id Let_def executeQuery_eq bound_values
    keys_Nil_iff
  by (simp split: sum.splits)

lemma updateMarketData_eq:
  "updateMarketData w trace row data =
     (let f = filterValidFields (obj_without data ''hotel_uuid'') in
      if f = [] then (Inr 0, trace)
      else (map_sum id affectedRows
              (db_answer w (length trace) (UpdateSet (obj_keys f))
                 (map (nullish_to_null \<circ> snd) f @ [JNum row])),
            trace @ [EvQuery (UpdateSet (obj_keys f)) (map (nullish_to_null \<circ> snd) f @ [JNum row])]))"
  unfolding updateMarketData_def convertBooleanValues_id Let_def executeQuery_eq bound_values
    keys_Nil_iff
  by (simp split: sum.splits)

lemma update_columns:
  "set (obj_keys (filterValidFields (obj_without data ''hotel_uuid'')))
     = set (obj_keys data) \<inter> set MD_ALL_FIELDS"
  using hotel_uuid_not_a_field by (auto simp: keys_filterValidFields keys_obj_without)

lemma update_values:
  "map (nullish_to_null \<circ> snd) (filterValidFields (obj_without data ''hotel_uuid''))
     = map (\<lambda>c. nullish_to_null (obj_get data c))
         (obj_keys (filterValidFields (obj_without data ''hotel_uuid'')))"
proof -
  let ?f = "filterValidFields (obj_without data ''hotel_uuid'')"
  have "obj_get ?f c = obj_get data c" if "c \<in> set (obj_keys ?f)" for c
  proof -
    have "c \<in> set MD_ALL_FIELDS" using that update_columns[of data] by simp
    moreover have "c \<noteq> ''hotel_uuid''" using calculation hotel_uuid_not_a_field by auto
    ultimately show ?thesis
      by (simp add: obj_get_def map_of_filterValidFields map_of_obj_without)
  qed
  then have "map (\<lambda>c. nullish_to_null (obj_get data c)) (obj_keys ?f)
      = map (\<lambda>c. nullish_to_null (obj_get ?f c)) (obj_keys ?f)"
    by simp
  then show ?thesis
    by (simp only: bound_values)
qed

lemma written_append:
  "written_columns (xs @ ys) = written_columns xs \<union> written_columns ys"
  by (simp add: written_columns_def)

lemma written_insertMarketData:
  "written_columns (snd (insertMarketData w trace data))
     \<subseteq> written_columns trace \<union> (set (obj_keys data) \<inter> (set MD_ALL_FIELDS \<union> {''hotel_uuid''}))"
  using keys_filterValidFields[of data]
  by (simp add: insertMarketData_eq Let_def written_columns_def)

lemma written_updateMarketData:
  "written_columns (snd (updateMarketData w trace row data))
     \<subseteq> written_columns trace \<union> (set (obj_keys data) \<inter> set MD_ALL_FIELDS)"
  using update_columns[of data]
  by (auto simp: updateMarketData_eq Let_def written_columns_def)

lemma updateMarketData_extends: "\<exists>ext. snd (updateMarketData w trace row data) = trace @ ext"
  by (simp add: updateMarketData_eq Let_def)

lemma snd_upsertMarketData:
  "snd (upsertMarketData w trace data u) =
     (let i = fst (getIdByUuid w trace u); t1 = trace @ [EvQuery SelectId [JStr u]]
      in if i > 0 then snd (updateMarketData w t1 i data)
         else snd (insertMarketData w t1 (obj_set data ''hotel_uuid'' (JStr u))))"
  by (simp add: upsertMarketData_def getIdByUuid_eq Let_def split: prod.splits sum.splits)

lemma written_upsertMarketData:
  "written_columns (snd (upsertMarketData w trace data u))
     \<subseteq> written_columns trace \<union> (set MD_ALL_FIELDS \<union> {''hotel_uuid''})"
proof -
  let ?t1 = "trace @ [EvQuery SelectId [JStr u]]"
  have t1: "written_columns ?t1 = written_columns trace"
    by (simp add: written_columns_def)
  show ?thesis
    using written_updateMarketData[of w ?t1 "fst (getIdByUuid w trace u)" data]
      written_insertMarketData[of w ?t1 "obj_set data ''hotel_uuid'' (JStr u)"]
    unfolding snd_upsertMarketData Let_def t1
    by (auto split: if_splits)
qed

text \<open>
  C3. The claim is that no storage failure is swallowed: insert and update rethrow, and a
  failure of the lookup is not turned into the absence sentinel. The first half holds. The
  second does not: when the lookup query throws, \<open>getIdByUuid\<close> returns \<open>0\<close>, exactly what it
  returns when the query succeeds with no row, although its own documentation says it throws
  when the query fails.
\<close>

theorem getIdByUuid_swallows_failure:
  "getIdByUuid (w\<lparr>db_answer := \<lambda>n q ps. Inl e\<rparr>) trace u
     = (0, trace @ [EvQuery SelectId [JStr u]])
   \<and> getIdByUuid (w\<lparr>db_answer := \<lambda>n q ps. Inr \<lparr>rows = [], insertId = 0, affectedRows = 0\<rparr>\<rparr>) trace u
     = (0, trace @ [EvQuery SelectId [JStr u]])
   \<and> fst (insertMarketData (w\<lparr>db_answer := \<lambda>n q ps. Inl e\<rparr>) trace [(''name'', JStr ''Inn'')])
     = Inl e
   \<and> fst (updateMarketData (w\<lparr>db_answer := \<lambda>n q ps. Inl e\<rparr>) trace row [(''name'', JStr ''Inn'')])
     = Inl e"
proof -
  have f: "filterValidFields [(''name'', JStr ''Inn'')] = [(''name'', JStr ''Inn'')]"
    by (simp add: filterValidFields_def filter_key_def obj_keys_def obj_get_def validFieldNames_def
        MD_ALL_FIELDS_def MD_PR_FIELDS_def)
  show ?thesis
    by (simp add: getIdByUuid_eq insertMarketData_eq updateMarketData_eq obj_without_def f)
qed

text \<open>
  C7. The columns an update sets are the keys of the input that are field names of the
  schema: \<^verbatim>\<open>hotel_uuid\<close> is never among them, whether or not the input has it. With no
  such key the update sends nothing and returns \<open>0\<close>, which is not an error. Otherwise it
  sends one statement that sets exactly these columns to the input's values (an
  \<^verbatim>\<open>undefined\<close> bound as \<^verbatim>\<open>null\<close>) and \<^verbatim>\<open>updated_at\<close> to the server's current time, for
  the row of the given id, and returns the affected-row count or rethrows the failure.
\<close>

theorem updateMarketData_never_sets_uuid:
  "(let columns = obj_keys (filterValidFields (obj_without data ''hotel_uuid''));
        vals = map (\<lambda>c. nullish_to_null (obj_get data c)) columns @ [JNum row]
    in ''hotel_uuid'' \<notin> set columns
       \<and> set columns = set (obj_keys data) \<inter> set MD_ALL_FIELDS
       \<and> updateMarketData w trace row data =
           (if columns = [] then (Inr 0, trace)
            else (map_sum id affectedRows (db_answer w (length trace) (UpdateSet columns) vals),
                  trace @ [EvQuery (UpdateSet columns) vals]))
       \<and> sql_text t (UpdateSet columns) =
           newline @ ''      UPDATE '' @ t @ '' SET '' @
           join '', '' (map (\<lambda>f. f @ '' = ?'') columns) @
           '', updated_at = CURRENT_TIMESTAMP'' @ newline @
           ''      WHERE id = ?'' @ newline @ ''    '')"
  using hotel_uuid_not_a_field update_columns[of data]
  by (simp add: Let_def updateMarketData_eq update_values keys_Nil_iff)

lemma updateMarketData_example:
  "updateMarketData w trace 7
     [(''hotel_uuid'', JStr ''u9''), (''name'', JStr ''Inn''), (''bogus'', JStr ''x'')]
   = (map_sum id affectedRows
        (db_answer w (length trace) (UpdateSet [''name'']) [JStr ''Inn'', JNum 7]),
      trace @ [EvQuery (UpdateSet [''name'']) [JStr ''Inn'', JNum 7]])
   \<and> updateMarketData w trace 7 [(''hotel_uuid'', JStr ''u9''), (''bogus'', JStr ''x'')]
   = (Inr 0, trace)"
proof -
  have f: "filterValidFields [(''name'', JStr ''Inn''), (''bogus'', JStr ''x'')]
      = [(''name'', JStr ''Inn'')]"
    by (simp add: filterValidFields_def filter_key_def obj_keys_def obj_get_def validFieldNames_def
        MD_ALL_FIELDS_def MD_PR_FIELDS_def MD_CAT_FIELDS_def)
  have g: "filterValidFields [(''bogus'', JStr ''x'')] = []"
    by (simp add: filterValidFields_def filter_key_def obj_keys_def obj_get_def validFieldNames_def
        MD_ALL_FIELDS_def MD_PR_FIELDS_def MD_CAT_FIELDS_def)
  show ?thesis
    by (simp add: updateMarketData_eq obj_without_def f g obj_keys_def nullish_to_null_def)
qed

text \<open>
  C10, as claimed: insert and update persist the schema-filtered values entirely unchanged.
  It fails for a value that is \<^verbatim>\<open>undefined\<close>: the schema filter keeps it, and the binding
  \<^verbatim>\<open>v ?? null\<close> sends \<^verbatim>\<open>null\<close>.
\<close>

theorem undefined_is_bound_as_null:
  "convertBooleanValues (filterValidFields [(''name'', JUndefined)]) = [(''name'', JUndefined)]
   \<and> snd (insertMarketData fresh_name_world [] [(''name'', JUndefined)])
       = [EvQuery (InsertInto [''name'']) [JNull]]
   \<and> snd (updateMarketData fresh_name_world [] 7 [(''name'', JUndefined)])
       = [EvQuery (UpdateSet [''name'']) [JNull, JNum 7]]"
proof -
  have f: "filterValidFields [(''name'', JUndefined)] = [(''name'', JUndefined)]"
    by (simp add: filterValidFields_def filter_key_def obj_keys_def obj_get_def validFieldNames_def
        MD_ALL_FIELDS_def MD_PR_FIELDS_def)
  show ?thesis
    by (simp add: convertBooleanValues_id insertMarketData_eq updateMarketData_eq obj_without_def
        f obj_keys_def nullish_to_null_def)
qed

text \<open>
  C10, amended. With the empty list of boolean fields, \<open>convertBooleanValues\<close> returns its
  input: the same keys with the same values. So an insert and an update bind, for the columns
  that are the keys of the schema-filtered data, the values of the schema-filtered data
  unchanged, except that the \<^verbatim>\<open>?? null\<close> of the binding sends \<^verbatim>\<open>null\<close> for a value that
  is \<^verbatim>\<open>undefined\<close>.
\<close>

theorem convertBooleanValues_identity:
  "convertBooleanValues data = data
   \<and> nullish_to_null v = (if v = JUndefined then JNull else v)
   \<and> insertMarketData w trace data =
       (let f = filterValidFields data in
        if f = [] then (Inl (Error ''No valid fields provided for insertion''), trace)
        else (map_sum id insertId
                (db_answer w (length trace) (InsertInto (obj_keys f))
                   (map (nullish_to_null \<circ> snd) f)),
              trace @ [EvQuery (InsertInto (obj_keys f)) (map (nullish_to_null \<circ> snd) f)]))
   \<and> updateMarketData w trace row data =
       (let f = filterValidFields (obj_without data ''hotel_uuid'') in
        if f = [] then (Inr 0, trace)
        else (map_sum id affectedRows
                (db_answer w (length trace) (UpdateSet (obj_keys f))
                   (map (nullish_to_null \<circ> snd) f @ [JNum row])),
              trace @ [EvQuery (UpdateSet (obj_keys f))
                         (map (nullish_to_null \<circ> snd) f @ [JNum row])]))"
  using convertBooleanValues_id insertMarketData_eq updateMarketData_eq
  by (simp add: nullish_to_null_def)

section \<open>The attempt loop\<close>

lemma fields_of_request:
  "filter (\<lambda>f. f \<in> set (getEmptyFields (Some acc) MD_ALL_FIELDS)) MD_ALL_FIELDS
     = getEmptyFields (Some acc) MD_ALL_FIELDS"
  by (auto simp: getEmptyFields_def intro: filter_cong)

lemma fetchHotelData_empties:
  "fetchHotelData w trace name (Some (getEmptyFields (Some acc) allFieldNames)) =
     (let fs = getEmptyFields (Some acc) MD_ALL_FIELDS
      in if fs = [] then (Inl (Error ''No fields to fetch''), trace)
         else (ai_answer w (length trace) name fs, trace @ [EvFetch name fs]))"
  by (simp add: fetchHotelData_def allFieldNames_def fields_of_request Let_def)

lemma attemptOnce_eq:
  "attemptOnce w m h a acc trace =
     (let emptyFields = getEmptyFields (Some acc) MD_ALL_FIELDS;
          trace' = trace @ [EvFetch (hotel_name h) emptyFields]
      in if emptyFields = [] then Break NothingEmpty acc trace
         else
           (case ai_answer w (length trace) (hotel_name h) emptyFields of
              Inr newData \<Rightarrow>
                if getEmptyFields (Some (mergeDataSafely acc newData)) MD_ALL_FIELDS = []
                then Break AllFilled (mergeDataSafely acc newData) trace'
                else if a < m then Next (mergeDataSafely acc newData) (trace' @ [EvWait 5000])
                else Next (mergeDataSafely acc newData) trace'
            | Inl e \<Rightarrow>
                if a \<ge> m then Break ErrorOnLastAttempt acc trace'
                else Next acc (trace' @ [EvWait 5000])))"
  by (simp add: attemptOnce_def fetchHotelData_def allFieldNames_def fields_of_request Let_def
      split: sum.splits)

lemma retryLoop_stop: "\<not> a < m \<Longrightarrow> retryLoop w m h a acc trace = (AttemptsUsed, a, acc, trace)"
  by (simp add: retryLoop.simps)

lemma retryLoop_step:
  "a < m \<Longrightarrow> retryLoop w m h a acc trace =
     (case attemptOnce w m h (a + 1) acc trace of
        Break how acc' trace' \<Rightarrow> (how, a + 1, acc', trace')
      | Next acc' trace' \<Rightarrow> retryLoop w m h (a + 1) acc' trace')"
  by (simp add: retryLoop.simps)

lemma attemptOnce_extends:
  "\<exists>ext. attempt_trace (attemptOnce w m h a acc trace) = trace @ ext"
  by (simp add: attemptOnce_eq Let_def split: sum.splits)

lemma written_attemptOnce:
  "written_columns (attempt_trace (attemptOnce w m h a acc trace)) = written_columns trace"
  by (simp add: attemptOnce_eq Let_def written_columns_def split: sum.splits)

lemma retryLoop_extends:
  "retryLoop w m h a acc trace = (how, n, acc', trace') \<Longrightarrow> \<exists>ext. trace' = trace @ ext"
proof (induction w m h a acc trace arbitrary: how n acc' trace' rule: retryLoop.induct)
  case (1 w m h a acc trace)
  show ?case
  proof (cases "a < m")
    case False
    with "1.prems" show ?thesis by (simp add: retryLoop_stop)
  next
    case True
    obtain ext1 where e1: "attempt_trace (attemptOnce w m h (a + 1) acc trace) = trace @ ext1"
      using attemptOnce_extends by blast
    show ?thesis
    proof (cases "attemptOnce w m h (a + 1) acc trace")
      case (Break how2 acc2 trace2)
      with True "1.prems" have "trace' = trace2" by (simp add: retryLoop_step)
      with Break e1 show ?thesis by simp
    next
      case (Next acc2 trace2)
      with True "1.prems" have "retryLoop w m h (a + 1) acc2 trace2 = (how, n, acc', trace')"
        by (simp add: retryLoop_step)
      from "1.IH"[OF True Next this] obtain ext2 where "trace' = trace2 @ ext2" by blast
      with Next e1 show ?thesis by simp
    qed
  qed
qed

lemma written_retryLoop:
  "retryLoop w m h a acc trace = (how, n, acc', trace') \<Longrightarrow>
   written_columns trace' = written_columns trace"
proof (induction w m h a acc trace arbitrary: how n acc' trace' rule: retryLoop.induct)
  case (1 w m h a acc trace)
  show ?case
  proof (cases "a < m")
    case False
    with "1.prems" show ?thesis by (simp add: retryLoop_stop)
  next
    case True
    show ?thesis
    proof (cases "attemptOnce w m h (a + 1) acc trace")
      case (Break how2 acc2 trace2)
      with True "1.prems" have "trace' = trace2" by (simp add: retryLoop_step)
      with Break written_attemptOnce[of w m h "a + 1" acc trace] show ?thesis by simp
    next
      case (Next acc2 trace2)
      with True "1.prems" have "retryLoop w m h (a + 1) acc2 trace2 = (how, n, acc', trace')"
        by (simp add: retryLoop_step)
      from "1.IH"[OF True Next this] Next written_attemptOnce[of w m h "a + 1" acc trace]
      show ?thesis by simp
    qed
  qed
qed

text \<open>When every request to the AI service throws, the loop leaves through the last
  attempt's \<^verbatim>\<open>catch\<close> with the accumulator it started from.\<close>

lemma retryLoop_all_fail:
  "(\<forall>k name fs. isl (ai_answer w k name fs)) \<Longrightarrow> a < m \<Longrightarrow>
   getEmptyFields (Some acc) MD_ALL_FIELDS \<noteq> [] \<Longrightarrow>
   \<exists>t1. retryLoop w m h a acc trace = (ErrorOnLastAttempt, m, acc, t1)"
proof (induction w m h a acc trace rule: retryLoop.induct)
  case (1 w m h a acc trace)
  let ?fs = "getEmptyFields (Some acc) MD_ALL_FIELDS"
  let ?t = "trace @ [EvFetch (hotel_name h) ?fs]"
  obtain e where e: "ai_answer w (length trace) (hotel_name h) ?fs = Inl e"
    using "1.prems"(1)[unfolded isl_def] by blast
  show ?case
  proof (cases "a + 1 \<ge> m")
    case True
    then have "attemptOnce w m h (a + 1) acc trace = Break ErrorOnLastAttempt acc ?t"
      using "1.prems"(3) e by (simp add: attemptOnce_eq Let_def)
    moreover have "a + 1 = m" using True "1.prems"(2) by simp
    ultimately show ?thesis
      using "1.prems"(2) by (simp add: retryLoop_step)
  next
    case False
    then have n: "attemptOnce w m h (a + 1) acc trace = Next acc (?t @ [EvWait 5000])"
      using "1.prems"(3) e by (simp add: attemptOnce_eq Let_def)
    have "a + 1 < m" using False by simp
    from "1.IH"[OF "1.prems"(2) n "1.prems"(1) this "1.prems"(3)]
    show ?thesis
      using "1.prems"(2) n by (simp add: retryLoop_step)
  qed
qed

section \<open>The whole cycle\<close>

lemma snd_saveToDatabase_Some:
  "snd (saveToDatabase w h (Some r) acc trace) =
     (let i = fst (getIdByUuid w trace (hotel_uuid h));
          t1 = trace @ [EvQuery SelectId [JStr (hotel_uuid h)]]
      in if i > 0 then snd (updateMarketData w t1 i (own acc)) else t1)"
  by (simp add: saveToDatabase_def getIdByUuid_eq Let_def split: prod.splits sum.splits)

lemma saveToDatabase_Some_trace:
  "\<exists>ext. snd (saveToDatabase w h (Some r) acc trace)
     = trace @ EvQuery SelectId [JStr (hotel_uuid h)] # ext"
proof -
  let ?t1 = "trace @ [EvQuery SelectId [JStr (hotel_uuid h)]]"
  obtain ext where "snd (updateMarketData w ?t1 (fst (getIdByUuid w trace (hotel_uuid h))) (own acc))
      = ?t1 @ ext"
    using updateMarketData_extends by blast
  then show ?thesis
    by (simp add: snd_saveToDatabase_Some Let_def)
qed

lemma written_saveToDatabase:
  "written_columns (snd (saveToDatabase w h existing acc trace))
     \<subseteq> written_columns trace \<union> (set MD_ALL_FIELDS \<union> {''hotel_uuid''})"
proof (cases existing)
  case None
  have "written_columns (snd (saveToDatabase w h None acc trace))
        = written_columns (snd (insertMarketData w trace
             (obj_set (own acc) ''hotel_uuid'' (JStr (hotel_uuid h)))))"
    by (simp add: saveToDatabase_def Let_def split: prod.splits sum.splits)
  with None written_insertMarketData[of w trace "obj_set (own acc) ''hotel_uuid'' (JStr (hotel_uuid h))"]
  show ?thesis by auto
next
  case (Some r)
  let ?t1 = "trace @ [EvQuery SelectId [JStr (hotel_uuid h)]]"
  show ?thesis
    using written_updateMarketData[of w ?t1 "fst (getIdByUuid w trace (hotel_uuid h))" "own acc"]
    unfolding Some snd_saveToDatabase_Some Let_def
    by (auto simp: written_columns_def)
qed

lemma processHotelWithRetry_eq:
  assumes "getMarketDataByUuid w trace (hotel_uuid h) = (existing, t0)"
      and "retryLoop w m h 0 (plain []) t0 = (how, n, acc, t1)"
  shows "processHotelWithRetry w m h trace =
     (case saveToDatabase w h existing acc t1 of
        (Inr u, t2) \<Rightarrow> (Inr (), t2 @ [EvFaq (hotel_name h)])
      | (Inl err, t2) \<Rightarrow> (Inl err, t2))"
  by (simp add: processHotelWithRetry_def assms fetchAndPrintHotelFAQ_def
      split: prod.splits sum.splits)

lemma written_processHotelWithRetry:
  "written_columns (snd (processHotelWithRetry w m h trace))
     \<subseteq> written_columns trace \<union> (set MD_ALL_FIELDS \<union> {''hotel_uuid''})"
proof -
  let ?t0 = "trace @ [EvQuery SelectAll [JStr (hotel_uuid h)]]"
  obtain existing where e: "getMarketDataByUuid w trace (hotel_uuid h) = (existing, ?t0)"
    by (simp add: getMarketDataByUuid_eq)
  obtain how n acc t1 where l: "retryLoop w m h 0 (plain []) ?t0 = (how, n, acc, t1)"
    using prod_cases4 by blast
  have t1: "written_columns t1 = written_columns trace"
    using written_retryLoop[OF l] by (simp add: written_columns_def)
  have "written_columns (snd (processHotelWithRetry w m h trace))
        = written_columns (snd (saveToDatabase w h existing acc t1))"
    by (simp add: processHotelWithRetry_eq[OF e l] written_columns_def
        split: prod.splits sum.splits)
  with written_saveToDatabase[of w h existing acc t1] t1 show ?thesis by simp
qed

lemma retryLoop_first_fetch:
  assumes "1 \<le> m" and "retryLoop w m h 0 (plain []) trace = (how, n, acc, trace')"
  shows "\<exists>ext. trace' = trace @ EvFetch (hotel_name h) MD_ALL_FIELDS # ext"
proof -
  have lt: "0 < m" using assms(1) by simp
  have "\<exists>ext. attempt_trace (attemptOnce w m h (0 + 1) (plain []) trace)
      = trace @ EvFetch (hotel_name h) MD_ALL_FIELDS # ext"
    by (simp add: attemptOnce_eq getEmptyFields_empty_object MD_ALL_FIELDS_nonempty Let_def
        split: sum.splits)
  then obtain ext1 where e1: "attempt_trace (attemptOnce w m h (0 + 1) (plain []) trace)
      = trace @ EvFetch (hotel_name h) MD_ALL_FIELDS # ext1"
    by blast
  show ?thesis
  proof (cases "attemptOnce w m h (0 + 1) (plain []) trace")
    case (Break how2 acc2 trace2)
    with lt assms(2) have "trace' = trace2" by (simp add: retryLoop_step)
    with Break e1 show ?thesis by simp
  next
    case (Next acc2 trace2)
    with lt assms(2) have "retryLoop w m h (0 + 1) acc2 trace2 = (how, n, acc, trace')"
      by (simp add: retryLoop_step)
    then obtain ext2 where "trace' = trace2 @ ext2" using retryLoop_extends by blast
    with Next e1 show ?thesis by simp
  qed
qed

text \<open>
  C8. Every statement that writes goes through the schema filter: the columns written by an
  insert, by an update, by an upsert and by a whole processing cycle are, beyond what the
  trace held before, keys of the input that are field names of the schema or
  \<^verbatim>\<open>hotel_uuid\<close> (an update never \<^verbatim>\<open>hotel_uuid\<close>).
\<close>

theorem writes_are_schema_filtered:
  "written_columns (snd (insertMarketData w trace data))
     \<subseteq> written_columns trace \<union> (set (obj_keys data) \<inter> (set MD_ALL_FIELDS \<union> {''hotel_uuid''}))
   \<and> written_columns (snd (updateMarketData w trace row data))
     \<subseteq> written_columns trace \<union> (set (obj_keys data) \<inter> set MD_ALL_FIELDS)
   \<and> written_columns (snd (upsertMarketData w trace data u))
     \<subseteq> written_columns trace \<union> (set MD_ALL_FIELDS \<union> {''hotel_uuid''})
   \<and> written_columns (snd (processHotelWithRetry w m h trace))
     \<subseteq> written_columns trace \<union> (set MD_ALL_FIELDS \<union> {''hotel_uuid''})"
  using written_insertMarketData written_updateMarketData written_upsertMarketData
    written_processHotelWithRetry
  by blast

text \<open>
  The loop asks the world for nothing but the answers of the AI service, and the save step,
  once a row was found, for nothing but the answers to the id lookup and the update.
\<close>

lemma attemptOnce_cong:
  "ai_answer w' = ai_answer w \<Longrightarrow> attemptOnce w' m h a acc trace = attemptOnce w m h a acc trace"
  by (simp add: attemptOnce_eq Let_def)

lemma retryLoop_cong:
  "ai_answer w' = ai_answer w \<Longrightarrow> retryLoop w' m h a acc trace = retryLoop w m h a acc trace"
proof (induction w m h a acc trace rule: retryLoop.induct)
  case (1 w m h a acc trace)
  show ?case
  proof (cases "a < m")
    case False
    then show ?thesis by (simp add: retryLoop_stop)
  next
    case True
    note a = attemptOnce_cong[OF "1.prems", of m h "a + 1" acc trace]
    show ?thesis
    proof (cases "attemptOnce w m h (a + 1) acc trace")
      case (Break how2 acc2 trace2)
      with True a show ?thesis by (simp add: retryLoop_step)
    next
      case (Next acc2 trace2)
      from "1.IH"[OF True Next "1.prems"] True a Next
      show ?thesis by (simp add: retryLoop_step)
    qed
  qed
qed

lemma saveToDatabase_cong:
  assumes "db_answer w' = (\<lambda>n q ps. if q = SelectAll then other n ps else db_answer w n q ps)"
  shows "saveToDatabase w' h (Some r') acc trace = saveToDatabase w h (Some r) acc trace"
  by (simp add: saveToDatabase_def getIdByUuid_eq updateMarketData_eq assms Let_def)

section \<open>Runs of the sample worlds\<close>

lemma filterValidFields_name:
  "filterValidFields [(''name'', v)] = [(''name'', v)]"
  by (simp add: filterValidFields_def filter_key_def obj_keys_def obj_get_def validFieldNames_def
      MD_ALL_FIELDS_def MD_PR_FIELDS_def)

lemma filterValidFields_name_uuid:
  "filterValidFields [(''name'', v), (''hotel_uuid'', u)] = [(''name'', v), (''hotel_uuid'', u)]"
  by (simp add: filterValidFields_def filter_key_def obj_keys_def obj_get_def validFieldNames_def
      MD_ALL_FIELDS_def MD_PR_FIELDS_def)

lemma mergeDataSafely_name:
  "\<not> isEmpty v \<Longrightarrow> mergeDataSafely (plain ps) [(''name'', v)] = plain (obj_set ps ''name'' v)"
  by (simp add: mergeDataSafely_def merge_key_def obj_keys_def obj_get_def js_set_def plain_def)

lemma name_leaves_fields_empty:
  "getEmptyFields (Some (plain [(''name'', v)])) MD_ALL_FIELDS \<noteq> []"
  unfolding getEmptyFields_plain_schema
  by (simp add: MD_ALL_FIELDS_def MD_PR_FIELDS_def obj_get_def isEmpty_def)

lemma fresh_name_world_lookup:
  "getMarketDataByUuid fresh_name_world [] (hotel_uuid inn)
     = (Some filled_row, [EvQuery SelectAll [JStr ''u1'']])"
  by (simp add: getMarketDataByUuid_eq fresh_name_world_def inn_def)

lemma fresh_name_world_loop:
  "retryLoop fresh_name_world 2 inn 0 (plain []) [EvQuery SelectAll [JStr ''u1'']]
     = (AttemptsUsed, 2, plain [(''name'', JStr ''Inn (fresh)'')],
        [EvQuery SelectAll [JStr ''u1''], EvFetch ''Inn'' MD_ALL_FIELDS, EvWait 5000,
         EvFetch ''Inn''
           (getEmptyFields (Some (plain [(''name'', JStr ''Inn (fresh)'')])) allFieldNames)])"
proof -
  let ?acc = "plain [(''name'', JStr ''Inn (fresh)'')]"
  let ?t0 = "[EvQuery SelectAll [JStr ''u1'']]"
  let ?tA = "[EvQuery SelectAll [JStr ''u1''], EvFetch ''Inn'' MD_ALL_FIELDS, EvWait 5000]"
  let ?tB = "[EvQuery SelectAll [JStr ''u1''], EvFetch ''Inn'' MD_ALL_FIELDS, EvWait 5000,
              EvFetch ''Inn'' (getEmptyFields (Some ?acc) allFieldNames)]"
  have v: "\<not> isEmpty (JStr ''Inn (fresh)'')" by (simp add: isEmpty_def)
  have m1: "mergeDataSafely (plain []) [(''name'', JStr ''Inn (fresh)'')] = ?acc"
    by (simp add: mergeDataSafely_name[OF v])
  have m2: "mergeDataSafely ?acc [(''name'', JStr ''Inn (fresh)'')] = ?acc"
    by (simp add: mergeDataSafely_name[OF v])
  have a1: "attemptOnce fresh_name_world 2 inn 1 (plain []) ?t0 = Next ?acc ?tA"
    by (simp add: attemptOnce_eq getEmptyFields_empty_object MD_ALL_FIELDS_nonempty
        fresh_name_world_def inn_def m1 name_leaves_fields_empty)
  have a2: "attemptOnce fresh_name_world 2 inn 2 ?acc ?tA = Next ?acc ?tB"
    by (simp add: attemptOnce_eq fresh_name_world_def inn_def m2 name_leaves_fields_empty
        allFieldNames_def)
  have "retryLoop fresh_name_world 2 inn 1 ?acc ?tA =
      (case attemptOnce fresh_name_world 2 inn (1 + 1) ?acc ?tA of
         Break how acc' trace' \<Rightarrow> (how, 1 + 1, acc', trace')
       | Next acc' trace' \<Rightarrow> retryLoop fresh_name_world 2 inn (1 + 1) acc' trace')"
    by (rule retryLoop_step) simp
  then have "retryLoop fresh_name_world 2 inn 1 ?acc ?tA = (AttemptsUsed, 2, ?acc, ?tB)"
    unfolding one_add_one a2 by (simp add: retryLoop_stop)
  then show ?thesis
    using a1 by (simp add: retryLoop_step)
qed

lemma fresh_name_world_run:
  "processHotelWithRetry fresh_name_world 2 inn [] =
     (Inr (), [EvQuery SelectAll [JStr ''u1''], EvFetch ''Inn'' MD_ALL_FIELDS, EvWait 5000,
               EvFetch ''Inn''
                 (getEmptyFields (Some (plain [(''name'', JStr ''Inn (fresh)'')])) allFieldNames),
               EvQuery SelectId [JStr ''u1''],
               EvQuery (UpdateSet [''name'']) [JStr ''Inn (fresh)'', JNum 7],
               EvFaq ''Inn''])"
proof -
  let ?acc = "plain [(''name'', JStr ''Inn (fresh)'')]"
  let ?tB = "[EvQuery SelectAll [JStr ''u1''], EvFetch ''Inn'' MD_ALL_FIELDS, EvWait 5000,
              EvFetch ''Inn'' (getEmptyFields (Some ?acc) allFieldNames)]"
  have s: "saveToDatabase fresh_name_world inn (Some filled_row) ?acc ?tB
      = (Inr (), ?tB @ [EvQuery SelectId [JStr ''u1''],
                        EvQuery (UpdateSet [''name'']) [JStr ''Inn (fresh)'', JNum 7]])"
    by (simp add: saveToDatabase_def getIdByUuid_eq updateMarketData_eq obj_without_def
        filterValidFields_name obj_keys_def nullish_to_null_def fresh_name_world_def inn_def
        filled_row_def plain_def)
  show ?thesis
    unfolding processHotelWithRetry_eq[OF fresh_name_world_lookup fresh_name_world_loop] s
    by (simp add: inn_def)
qed

section \<open>RetryDriver and UpsertReconciler\<close>

text \<open>
  C1, as claimed: for a hotel whose stored record has every field filled, attempt 1 finds no
  empty field and no request goes to the AI service. It fails: the stored record of
  \<open>fresh_name_world\<close> has no empty field, and the cycle still requests every field of the
  schema on attempt 1 and the fields its accumulator lacks on attempt 2. The loop computes
  the empty fields of the accumulator, which starts empty, and never reads the stored record.
\<close>

theorem filled_record_is_fetched_again:
  "getEmptyFields (Some (plain (row_columns filled_row))) allFieldNames = []
   \<and> fst (getMarketDataByUuid fresh_name_world [] (hotel_uuid inn)) = Some filled_row
   \<and> filter is_fetch (snd (processHotelWithRetry fresh_name_world 2 inn []))
       = [EvFetch ''Inn'' MD_ALL_FIELDS,
          EvFetch ''Inn''
            (getEmptyFields (Some (plain [(''name'', JStr ''Inn (fresh)'')])) allFieldNames)]"
  unfolding fresh_name_world_run fresh_name_world_lookup
  by (simp add: getEmptyFields_filled_record filled_row_def is_fetch_def)

text \<open>
  C1, amended. For a hotel that has a stored record, whatever the record holds, and at least
  one attempt allowed: the cycle is the attempt loop started from the empty accumulator,
  followed by the save step on what the loop returns. The empty fields of attempt 1 are those
  of the empty accumulator, the whole field list of the schema, and the first thing the cycle
  does after reading the record is to request all of them from the AI service. No attempt
  consults the stored record: in a world that differs only in its answers to the select of
  the record, and where a record is found as well, the cycle returns the same result after
  the same requests and queries. The reconciler still runs, as the id lookup of the update
  path is sent later in the cycle.
\<close>

theorem first_attempt_requests_every_field:
  assumes "getMarketDataByUuid w trace (hotel_uuid h) = (Some r, t0)"
      and "1 \<le> maxAttempts"
      and "getMarketDataByUuid w' trace (hotel_uuid h) = (Some r', t0')"
      and "ai_answer w' = ai_answer w"
      and "db_answer w' = (\<lambda>n q ps. if q = SelectAll then other n ps else db_answer w n q ps)"
  shows "getEmptyFields (Some (plain [])) allFieldNames = MD_ALL_FIELDS
       \<and> (\<exists>rest. snd (processHotelWithRetry w maxAttempts h trace)
                    = t0 @ EvFetch (hotel_name h) MD_ALL_FIELDS # rest
                  \<and> EvQuery SelectId [JStr (hotel_uuid h)] \<in> set rest)
       \<and> processHotelWithRetry w maxAttempts h trace =
           (case retryLoop w maxAttempts h 0 (plain []) t0 of
              (how, n, acc, t1) \<Rightarrow>
                (case saveToDatabase w h (Some r) acc t1 of
                   (Inr u, t2) \<Rightarrow> (Inr (), t2 @ [EvFaq (hotel_name h)])
                 | (Inl e, t2) \<Rightarrow> (Inl e, t2)))
       \<and> processHotelWithRetry w' maxAttempts h trace
           = processHotelWithRetry w maxAttempts h trace"
proof -
  obtain how n acc t1 where l: "retryLoop w maxAttempts h 0 (plain []) t0 = (how, n, acc, t1)"
    using prod_cases4 by blast
  obtain ext1 where t1: "t1 = t0 @ EvFetch (hotel_name h) MD_ALL_FIELDS # ext1"
    using retryLoop_first_fetch[OF assms(2) l] by blast
  obtain ext2 where s: "snd (saveToDatabase w h (Some r) acc t1)
      = t1 @ EvQuery SelectId [JStr (hotel_uuid h)] # ext2"
    using saveToDatabase_Some_trace by blast
  note run = processHotelWithRetry_eq[OF assms(1) l]
  have "snd (processHotelWithRetry w maxAttempts h trace)
          = snd (saveToDatabase w h (Some r) acc t1)
      \<or> snd (processHotelWithRetry w maxAttempts h trace)
          = snd (saveToDatabase w h (Some r) acc t1) @ [EvFaq (hotel_name h)]"
    by (simp add: run split: prod.splits sum.splits)
  then have first: "\<exists>rest. snd (processHotelWithRetry w maxAttempts h trace)
                    = t0 @ EvFetch (hotel_name h) MD_ALL_FIELDS # rest
                  \<and> EvQuery SelectId [JStr (hotel_uuid h)] \<in> set rest"
    using s t1 by auto
  have shape: "processHotelWithRetry w maxAttempts h trace =
           (case retryLoop w maxAttempts h 0 (plain []) t0 of
              (how, n, acc, t1) \<Rightarrow>
                (case saveToDatabase w h (Some r) acc t1 of
                   (Inr u, t2) \<Rightarrow> (Inr (), t2 @ [EvFaq (hotel_name h)])
                 | (Inl e, t2) \<Rightarrow> (Inl e, t2)))"
    by (simp add: run l)
  have t0: "t0 = trace @ [EvQuery SelectAll [JStr (hotel_uuid h)]]"
    using assms(1) by (simp add: getMarketDataByUuid_eq)
  have t0': "t0' = t0"
    using assms(3) t0 by (simp add: getMarketDataByUuid_eq)
  have l': "retryLoop w' maxAttempts h 0 (plain []) t0' = (how, n, acc, t1)"
    using l t0' retryLoop_cong[OF assms(4)] by simp
  have "processHotelWithRetry w' maxAttempts h trace
      = (case saveToDatabase w' h (Some r') acc t1 of
           (Inr u, t2) \<Rightarrow> (Inr (), t2 @ [EvFaq (hotel_name h)])
         | (Inl err, t2) \<Rightarrow> (Inl err, t2))"
    by (rule processHotelWithRetry_eq[OF assms(3) l'])
  then have same: "processHotelWithRetry w' maxAttempts h trace
      = processHotelWithRetry w maxAttempts h trace"
    by (simp add: run saveToDatabase_cong[OF assms(5), of h r' acc t1 r])
  show ?thesis
    using first shape same by (simp add: getEmptyFields_empty_object allFieldNames_def)
qed

theorem first_attempt_requests_every_field_witness:
  "getMarketDataByUuid fresh_name_world [] (hotel_uuid inn)
     = (Some filled_row, [EvQuery SelectAll [JStr ''u1'']])
   \<and> (1::nat) \<le> 2
   \<and> getMarketDataByUuid bare_row_world [] (hotel_uuid inn)
     = (Some bare_row, [EvQuery SelectAll [JStr ''u1'']])
   \<and> ai_answer bare_row_world = ai_answer fresh_name_world
   \<and> db_answer bare_row_world
     = (\<lambda>n q ps. if q = SelectAll
          then Inr \<lparr>rows = [bare_row], insertId = 0, affectedRows = 1\<rparr>
          else db_answer fresh_name_world n q ps)
   \<and> (\<exists>rest. snd (processHotelWithRetry fresh_name_world 2 inn [])
                = [EvQuery SelectAll [JStr ''u1'']] @ EvFetch (hotel_name inn) MD_ALL_FIELDS # rest
              \<and> EvQuery SelectId [JStr (hotel_uuid inn)] \<in> set rest)
   \<and> processHotelWithRetry bare_row_world 2 inn []
     = (Inr (), [EvQuery SelectAll [JStr ''u1''], EvFetch ''Inn'' MD_ALL_FIELDS, EvWait 5000,
                 EvFetch ''Inn''
                   (getEmptyFields (Some (plain [(''name'', JStr ''Inn (fresh)'')]))
                      allFieldNames),
                 EvQuery SelectId [JStr ''u1''],
                 EvQuery (UpdateSet [''name'']) [JStr ''Inn (fresh)'', JNum 7],
                 EvFaq ''Inn''])"
proof -
  have le: "(1::nat) \<le> 2" by simp
  have look': "getMarketDataByUuid bare_row_world [] (hotel_uuid inn)
      = (Some bare_row, [EvQuery SelectAll [JStr ''u1'']])"
    by (simp add: getMarketDataByUuid_eq bare_row_world_def inn_def)
  have ai: "ai_answer bare_row_world = ai_answer fresh_name_world"
    by (simp add: bare_row_world_def)
  have db: "db_answer bare_row_world
     = (\<lambda>n q ps. if q = SelectAll
          then Inr \<lparr>rows = [bare_row], insertId = 0, affectedRows = 1\<rparr>
          else db_answer fresh_name_world n q ps)"
    by (simp add: bare_row_world_def)
  note T = first_attempt_requests_every_field[OF fresh_name_world_lookup le look' ai db]
  from T have first: "\<exists>rest. snd (processHotelWithRetry fresh_name_world 2 inn [])
                = [EvQuery SelectAll [JStr ''u1'']] @ EvFetch (hotel_name inn) MD_ALL_FIELDS # rest
              \<and> EvQuery SelectId [JStr (hotel_uuid inn)] \<in> set rest"
    by blast
  from T have "processHotelWithRetry bare_row_world 2 inn []
      = processHotelWithRetry fresh_name_world 2 inn []"
    by blast
  then have same: "processHotelWithRetry bare_row_world 2 inn []
     = (Inr (), [EvQuery SelectAll [JStr ''u1''], EvFetch ''Inn'' MD_ALL_FIELDS, EvWait 5000,
                 EvFetch ''Inn''
                   (getEmptyFields (Some (plain [(''name'', JStr ''Inn (fresh)'')]))
                      allFieldNames),
                 EvQuery SelectId [JStr ''u1''],
                 EvQuery (UpdateSet [''name'']) [JStr ''Inn (fresh)'', JNum 7],
                 EvFaq ''Inn''])"
    by (simp only: fresh_name_world_run)
  show ?thesis
    using fresh_name_world_lookup le look' ai db first same by blast
qed

text \<open>
  C6. When the request of the last attempt throws (the counter has reached
  \<open>maxAttempts\<close>), the loop ends through the \<^verbatim>\<open>catch\<close> branch with the accumulator of the
  earlier attempts unchanged. Whatever way the loop ended, the cycle goes on to save the
  accumulator it returned, by the same code; nothing is aborted. And when every request
  throws, the loop ends this way with the accumulator it started from.
\<close>

theorem fetch_error_on_last_attempt:
  "(attempt < maxAttempts \<and> maxAttempts \<le> attempt + 1
      \<and> getEmptyFields (Some acc) allFieldNames \<noteq> []
      \<and> fetchHotelData w trace (hotel_name h) (Some (getEmptyFields (Some acc) allFieldNames))
          = (Inl e, trace')
    \<longrightarrow> retryLoop w maxAttempts h attempt acc trace
          = (ErrorOnLastAttempt, maxAttempts, acc, trace'))
   \<and> (getMarketDataByUuid w trace0 (hotel_uuid h) = (existing, t0)
      \<and> retryLoop w maxAttempts h 0 (plain []) t0 = (how, n, acc1, t1)
    \<longrightarrow> processHotelWithRetry w maxAttempts h trace0
          = (case saveToDatabase w h existing acc1 t1 of
               (Inr u, t2) \<Rightarrow> (Inr (), t2 @ [EvFaq (hotel_name h)])
             | (Inl err, t2) \<Rightarrow> (Inl err, t2)))
   \<and> ((\<forall>k name fs. isl (ai_answer w k name fs)) \<and> attempt < maxAttempts
      \<and> getEmptyFields (Some acc) allFieldNames \<noteq> []
    \<longrightarrow> (\<exists>t2. retryLoop w maxAttempts h attempt acc trace
               = (ErrorOnLastAttempt, maxAttempts, acc, t2)))"
proof (intro conjI impI)
  assume a: "attempt < maxAttempts \<and> maxAttempts \<le> attempt + 1
      \<and> getEmptyFields (Some acc) allFieldNames \<noteq> []
      \<and> fetchHotelData w trace (hotel_name h) (Some (getEmptyFields (Some acc) allFieldNames))
          = (Inl e, trace')"
  then have m: "attempt + 1 = maxAttempts" by simp
  have "attemptOnce w maxAttempts h (attempt + 1) acc trace = Break ErrorOnLastAttempt acc trace'"
    using a by (simp add: attemptOnce_def Let_def)
  then show "retryLoop w maxAttempts h attempt acc trace
      = (ErrorOnLastAttempt, maxAttempts, acc, trace')"
    using a m by (simp add: retryLoop_step)
next
  assume "getMarketDataByUuid w trace0 (hotel_uuid h) = (existing, t0)
      \<and> retryLoop w maxAttempts h 0 (plain []) t0 = (how, n, acc1, t1)"
  then show "processHotelWithRetry w maxAttempts h trace0
          = (case saveToDatabase w h existing acc1 t1 of
               (Inr u, t2) \<Rightarrow> (Inr (), t2 @ [EvFaq (hotel_name h)])
             | (Inl err, t2) \<Rightarrow> (Inl err, t2))"
    using processHotelWithRetry_eq by blast
next
  assume "(\<forall>k name fs. isl (ai_answer w k name fs)) \<and> attempt < maxAttempts
      \<and> getEmptyFields (Some acc) allFieldNames \<noteq> []"
  then show "\<exists>t2. retryLoop w maxAttempts h attempt acc trace
               = (ErrorOnLastAttempt, maxAttempts, acc, t2)"
    using retryLoop_all_fail[of w attempt maxAttempts acc h trace]
    by (simp add: allFieldNames_def)
qed

theorem fetch_error_on_last_attempt_witness:
  "(1::nat) < 2 \<and> (2::nat) \<le> 1 + 1
   \<and> getEmptyFields (Some (plain [(''name'', JStr ''Inn'')])) allFieldNames \<noteq> []
   \<and> fetchHotelData flaky_world
        [EvQuery SelectAll [JStr ''u1''], EvFetch ''Inn'' MD_ALL_FIELDS, EvWait 5000]
        (hotel_name inn) (Some (getEmptyFields (Some (plain [(''name'', JStr ''Inn'')])) allFieldNames))
      = (Inl (Error ''timeout''),
         [EvQuery SelectAll [JStr ''u1''], EvFetch ''Inn'' MD_ALL_FIELDS, EvWait 5000,
          EvFetch ''Inn'' (getEmptyFields (Some (plain [(''name'', JStr ''Inn'')])) allFieldNames)])
   \<and> retryLoop flaky_world 2 inn 1 (plain [(''name'', JStr ''Inn'')])
        [EvQuery SelectAll [JStr ''u1''], EvFetch ''Inn'' MD_ALL_FIELDS, EvWait 5000]
      = (ErrorOnLastAttempt, 2, plain [(''name'', JStr ''Inn'')],
         [EvQuery SelectAll [JStr ''u1''], EvFetch ''Inn'' MD_ALL_FIELDS, EvWait 5000,
          EvFetch ''Inn'' (getEmptyFields (Some (plain [(''name'', JStr ''Inn'')])) allFieldNames)])
   \<and> getMarketDataByUuid flaky_world [] (hotel_uuid inn)
      = (None, [EvQuery SelectAll [JStr ''u1'']])
   \<and> retryLoop flaky_world 2 inn 0 (plain []) [EvQuery SelectAll [JStr ''u1'']]
      = (ErrorOnLastAttempt, 2, plain [(''name'', JStr ''Inn'')],
         [EvQuery SelectAll [JStr ''u1''], EvFetch ''Inn'' MD_ALL_FIELDS, EvWait 5000,
          EvFetch ''Inn'' (getEmptyFields (Some (plain [(''name'', JStr ''Inn'')])) allFieldNames)])
   \<and> processHotelWithRetry flaky_world 2 inn []
      = (Inr (),
         [EvQuery SelectAll [JStr ''u1''], EvFetch ''Inn'' MD_ALL_FIELDS, EvWait 5000,
          EvFetch ''Inn'' (getEmptyFields (Some (plain [(''name'', JStr ''Inn'')])) allFieldNames),
          EvQuery (InsertInto [''name'', ''hotel_uuid'']) [JStr ''Inn'', JStr ''u1''],
          EvFaq ''Inn''])"
proof -
  let ?acc = "plain [(''name'', JStr ''Inn'')]"
  let ?t0 = "[EvQuery SelectAll [JStr ''u1'']]"
  let ?tA = "[EvQuery SelectAll [JStr ''u1''], EvFetch ''Inn'' MD_ALL_FIELDS, EvWait 5000]"
  let ?tB = "[EvQuery SelectAll [JStr ''u1''], EvFetch ''Inn'' MD_ALL_FIELDS, EvWait 5000,
              EvFetch ''Inn'' (getEmptyFields (Some ?acc) allFieldNames)]"
  note T = fetch_error_on_last_attempt
    [where w = flaky_world and maxAttempts = 2 and h = inn and attempt = 1 and acc = ?acc
       and trace = ?tA and e = "Error ''timeout''" and trace' = ?tB and ?trace0.0 = "[]"
       and existing = None and ?t0.0 = ?t0 and how = ErrorOnLastAttempt and n = 2
       and ?acc1.0 = ?acc and ?t1.0 = ?tB]
  have p1: "(1::nat) < 2" and p2: "(2::nat) \<le> 1 + 1" by simp_all
  have p3: "getEmptyFields (Some ?acc) allFieldNames \<noteq> []"
    by (simp add: allFieldNames_def name_leaves_fields_empty)
  have p4: "fetchHotelData flaky_world ?tA (hotel_name inn)
              (Some (getEmptyFields (Some ?acc) allFieldNames))
            = (Inl (Error ''timeout''), ?tB)"
    unfolding fetchHotelData_empties
    using p3 by (simp add: flaky_world_def inn_def allFieldNames_def)
  from T p1 p2 p3 p4
  have last: "retryLoop flaky_world 2 inn 1 ?acc ?tA = (ErrorOnLastAttempt, 2, ?acc, ?tB)"
    by blast
  have m: "mergeDataSafely (plain []) [(''name'', JStr ''Inn''), (''email'', JStr ''N/A'')] = ?acc"
    by (simp add: mergeDataSafely_def merge_key_def obj_keys_def obj_get_def isEmpty_def
        js_set_def obj_has_def plain_def)
  have "attemptOnce flaky_world 2 inn 1 (plain []) ?t0 = Next ?acc ?tA"
    by (simp add: attemptOnce_eq getEmptyFields_empty_object MD_ALL_FIELDS_nonempty
        flaky_world_def inn_def m name_leaves_fields_empty)
  then have loop: "retryLoop flaky_world 2 inn 0 (plain []) ?t0 = (ErrorOnLastAttempt, 2, ?acc, ?tB)"
    using last by (simp add: retryLoop_step)
  have look: "getMarketDataByUuid flaky_world [] (hotel_uuid inn) = (None, ?t0)"
    by (simp add: getMarketDataByUuid_eq flaky_world_def inn_def)
  have save: "saveToDatabase flaky_world inn None ?acc ?tB
      = (Inr (), ?tB @ [EvQuery (InsertInto [''name'', ''hotel_uuid'']) [JStr ''Inn'', JStr ''u1'']])"
    by (simp add: saveToDatabase_def insertMarketData_eq filterValidFields_name_uuid
        obj_keys_def nullish_to_null_def flaky_world_def inn_def plain_def)
  from T look loop
  have "processHotelWithRetry flaky_world 2 inn []
      = (case saveToDatabase flaky_world inn None ?acc ?tB of
           (Inr u, t2) \<Rightarrow> (Inr (), t2 @ [EvFaq (hotel_name inn)])
         | (Inl err, t2) \<Rightarrow> (Inl err, t2))"
    by blast
  then have run: "processHotelWithRetry flaky_world 2 inn []
      = (Inr (), ?tB @ [EvQuery (InsertInto [''name'', ''hotel_uuid'']) [JStr ''Inn'', JStr ''u1''],
                        EvFaq ''Inn''])"
    unfolding save by (simp add: inn_def)
  show ?thesis
    using p1 p2 p3 p4 last look loop run by simp
qed

text \<open>
  C9. When a stored record was found at the start of the cycle and the id lookup after the
  loop returns \<open>0\<close>, the cycle sends the lookup query and nothing else to the storage: no
  insert and no update, so the accumulator is dropped. It then makes the FAQ request and
  returns normally.
\<close>

theorem lookup_zero_discards_data:
  assumes "getMarketDataByUuid w trace (hotel_uuid h) = (Some r, t0)"
      and "retryLoop w maxAttempts h 0 (plain []) t0 = (how, n, acc, t1)"
      and "fst (getIdByUuid w t1 (hotel_uuid h)) = 0"
  shows "processHotelWithRetry w maxAttempts h trace
           = (Inr (), t1 @ [EvQuery SelectId [JStr (hotel_uuid h)], EvFaq (hotel_name h)])
       \<and> written_columns (snd (processHotelWithRetry w maxAttempts h trace))
           = written_columns trace"
proof -
  have s: "saveToDatabase w h (Some r) acc t1
      = (Inr (), t1 @ [EvQuery SelectId [JStr (hotel_uuid h)]])"
    using assms(3) by (simp add: saveToDatabase_def getIdByUuid_eq split: prod.splits)
  have run: "processHotelWithRetry w maxAttempts h trace
      = (Inr (), t1 @ [EvQuery SelectId [JStr (hotel_uuid h)], EvFaq (hotel_name h)])"
    unfolding processHotelWithRetry_eq[OF assms(1) assms(2)] s by simp
  have "t0 = trace @ [EvQuery SelectAll [JStr (hotel_uuid h)]]"
    using assms(1) by (simp add: getMarketDataByUuid_eq)
  then have "written_columns t1 = written_columns trace"
    using written_retryLoop[OF assms(2)] by (simp add: written_columns_def)
  then show ?thesis
    unfolding run by (simp add: written_columns_def)
qed

theorem lookup_zero_discards_data_witness:
  "getMarketDataByUuid lookup_fails_world [] (hotel_uuid inn)
     = (Some filled_row, [EvQuery SelectAll [JStr ''u1'']])
   \<and> retryLoop lookup_fails_world 1 inn 0 (plain []) [EvQuery SelectAll [JStr ''u1'']]
     = (AttemptsUsed, 1, plain [(''name'', JStr ''Inn'')],
        [EvQuery SelectAll [JStr ''u1''], EvFetch ''Inn'' MD_ALL_FIELDS])
   \<and> fst (getIdByUuid lookup_fails_world
            [EvQuery SelectAll [JStr ''u1''], EvFetch ''Inn'' MD_ALL_FIELDS] (hotel_uuid inn)) = 0
   \<and> processHotelWithRetry lookup_fails_world 1 inn []
     = (Inr (), [EvQuery SelectAll [JStr ''u1''], EvFetch ''Inn'' MD_ALL_FIELDS,
                 EvQuery SelectId [JStr ''u1''], EvFaq ''Inn''])"
proof -
  let ?acc = "plain [(''name'', JStr ''Inn'')]"
  let ?t0 = "[EvQuery SelectAll [JStr ''u1'']]"
  let ?t1 = "[EvQuery SelectAll [JStr ''u1''], EvFetch ''Inn'' MD_ALL_FIELDS]"
  have look: "getMarketDataByUuid lookup_fails_world [] (hotel_uuid inn) = (Some filled_row, ?t0)"
    by (simp add: getMarketDataByUuid_eq lookup_fails_world_def inn_def)
  have "attemptOnce lookup_fails_world 1 inn 1 (plain []) ?t0 = Next ?acc ?t1"
    by (simp add: attemptOnce_eq getEmptyFields_empty_object MD_ALL_FIELDS_nonempty
        lookup_fails_world_def inn_def mergeDataSafely_name name_leaves_fields_empty
        isEmpty_def)
  then have loop: "retryLoop lookup_fails_world 1 inn 0 (plain []) ?t0 = (AttemptsUsed, 1, ?acc, ?t1)"
    by (simp add: retryLoop_step retryLoop_stop)
  have zero: "fst (getIdByUuid lookup_fails_world ?t1 (hotel_uuid inn)) = 0"
    by (simp add: getIdByUuid_eq lookup_fails_world_def)
  from lookup_zero_discards_data[OF look loop zero]
  have "processHotelWithRetry lookup_fails_world 1 inn []
      = (Inr (), ?t1 @ [EvQuery SelectId [JStr (hotel_uuid inn)], EvFaq (hotel_name inn)])"
    by blast
  then have run: "processHotelWithRetry lookup_fails_world 1 inn []
      = (Inr (), [EvQuery SelectAll [JStr ''u1''], EvFetch ''Inn'' MD_ALL_FIELDS,
                  EvQuery SelectId [JStr ''u1''], EvFaq ''Inn''])"
    by (simp add: inn_def)
  show ?thesis
    unfolding run using look loop zero by simp
qed

end
